theory Spec2Isabelle
  imports Complex_Main "HOL-Library.Char_ord" "HOL-Library.List_Lexorder"
    "HOL-Library.Product_Lexorder" "HOL-Library.Multiset"
begin

section \<open>The fraud detection engine of \<^verbatim>\<open>backend/detector.py\<close>\<close>

text \<open>
  The engine is the class \<^verbatim>\<open>FraudDetector\<close>. Its attributes become records that are
  passed from stage to stage; each method becomes a function of the attributes it reads.

  Amounts are \<^verbatim>\<open>float\<close> in the source and \<^typ>\<open>real\<close> here: every float is a real
  number (infinities and NaN are left out). The totals of \<^verbatim>\<open>_precompute\<close> and the quotients
  formed from them decide the pass-through and the merchant set at a threshold, and a
  float sum or quotient is rounded: the model takes both as parameters (\<open>float_ops\<close>
  below). The amounts on the edges and the mean and deviation of the anomaly detector are
  the exact ones. Timestamps are \<^verbatim>\<open>pandas.Timestamp\<close> values, which
  count nanoseconds, and are \<^typ>\<open>int\<close> here. Scores are Python integers that only
  grow from zero and are \<^typ>\<open>nat\<close>.
\<close>

subsection \<open>Constants of the class\<close>

definition CYCLE_SCORE :: nat where "CYCLE_SCORE = 50"
definition PASSTHROUGH_SCORE :: nat where "PASSTHROUGH_SCORE = 30"
definition SMURF_SCORE :: nat where "SMURF_SCORE = 40"
definition AMOUNT_ANOMALY_SCORE :: nat where "AMOUNT_ANOMALY_SCORE = 20"
definition TEMPORAL_SCORE :: nat where "TEMPORAL_SCORE = 20"
definition CHAIN_SCORE :: nat where "CHAIN_SCORE = 15"
definition ROUND_AMOUNT_SCORE :: nat where "ROUND_AMOUNT_SCORE = 15"
definition DORMANCY_SCORE :: nat where "DORMANCY_SCORE = 15"
definition FAN_IO_SCORE :: nat where "FAN_IO_SCORE = 10"
definition MAX_SCORE :: nat where "MAX_SCORE = 100"
definition SUSPICIOUS_THRESHOLD :: nat where "SUSPICIOUS_THRESHOLD = 40"

definition FAN_THRESHOLD :: nat where "FAN_THRESHOLD = 10"
definition MAX_CYCLE_LEN :: nat where "MAX_CYCLE_LEN = 5"
definition MIN_CHAIN_LEN :: nat where "MIN_CHAIN_LEN = 3"
definition PASSTHROUGH_RATIO :: real where "PASSTHROUGH_RATIO = 98 / 100"
definition MERCHANT_PT_CAP :: real where "MERCHANT_PT_CAP = 1 / 2"
definition TEMPORAL_WINDOW_H :: int where "TEMPORAL_WINDOW_H = 72"
definition TEMPORAL_TX_MIN :: nat where "TEMPORAL_TX_MIN = 10"
definition ROUND_AMOUNTS :: "real set" where
  "ROUND_AMOUNTS = {1000, 2000, 5000, 10000, 20000, 25000, 50000, 100000}"
definition ROUND_RATIO_THRESHOLD :: real where "ROUND_RATIO_THRESHOLD = 1 / 2"
definition ANOMALY_SIGMA :: real where "ANOMALY_SIGMA = 3"
definition DORMANCY_ACTIVE_H :: int where "DORMANCY_ACTIVE_H = 48"
definition DORMANCY_SILENT_H :: int where "DORMANCY_SILENT_H = 168"
definition DORMANCY_MIN_TXN :: nat where "DORMANCY_MIN_TXN = 5"
definition SMURF_MIN_SOURCES :: nat where "SMURF_MIN_SOURCES = 5"
definition SMURF_WINDOW_H :: int where "SMURF_WINDOW_H = 24"
definition MAX_CYCLES :: nat where "MAX_CYCLES = 500"
definition MAX_VIZ_NODES :: nat where "MAX_VIZ_NODES = 2000"

lemmas score_consts = CYCLE_SCORE_def PASSTHROUGH_SCORE_def SMURF_SCORE_def
  AMOUNT_ANOMALY_SCORE_def TEMPORAL_SCORE_def CHAIN_SCORE_def ROUND_AMOUNT_SCORE_def
  DORMANCY_SCORE_def FAN_IO_SCORE_def MAX_SCORE_def SUSPICIOUS_THRESHOLD_def

subsection \<open>Float arithmetic\<close>

text \<open>
  \<open>fsum\<close> is the sum of a column of floats as pandas computes it, \<open>fdiv\<close> is Python's
  division of two floats. Nothing is assumed of either.
\<close>

record float_ops =
  fsum :: "real list \<Rightarrow> real"
  fdiv :: "real \<Rightarrow> real \<Rightarrow> real"

subsection \<open>Rows of the data frame\<close>

type_synonym account = string

record txn =
  transaction_id :: string
  sender_id :: account
  receiver_id :: account
  amount :: real
  timestamp :: int

text \<open>\<^verbatim>\<open>timedelta(hours=h)\<close> in nanoseconds.\<close>

definition timedelta_hours :: "int \<Rightarrow> int" where
  "timedelta_hours h = h * 3600000000000"

text \<open>
  A Python \<^verbatim>\<open>dict\<close> keeps its keys in insertion order: it is a list of pairs with
  distinct keys. \<^verbatim>\<open>dict.get(key, default)\<close>:
\<close>

type_synonym ('k, 'v) dict = "('k \<times> 'v) list"

definition get :: "('k, 'v) dict \<Rightarrow> 'k \<Rightarrow> 'v \<Rightarrow> 'v" where
  "get m k d = (case map_of m k of None \<Rightarrow> d | Some v \<Rightarrow> v)"

text \<open>\<^verbatim>\<open>_parse_csv\<close> drops the rows that go from an account to itself.\<close>

definition remove_self_loops :: "txn list \<Rightarrow> txn list" where
  "remove_self_loops rows = filter (\<lambda>r. sender_id r \<noteq> receiver_id r) rows"

subsection \<open>Timestamp normalisation: \<^verbatim>\<open>_parse_timestamps\<close>\<close>

text \<open>
  The cells of the raw timestamp column have a type \<open>'c\<close> of their own. The pandas
  conversions are parameters: \<open>to_numeric\<close> and \<open>to_datetime\<close> give \<open>None\<close> where
  pandas gives NaN or NaT under \<^verbatim>\<open>errors="coerce"\<close>; \<open>unix_s\<close> and \<open>unix_ms\<close> are
  \<^verbatim>\<open>to_datetime(unit=...)\<close> on a number, \<open>hours_delta\<close> is \<^verbatim>\<open>to_timedelta(unit="h")\<close>.
\<close>

record 'c pandas =
  to_numeric :: "'c \<Rightarrow> real option"
  to_datetime :: "'c \<Rightarrow> int option"
  unix_s :: "real \<Rightarrow> int option"
  unix_ms :: "real \<Rightarrow> int option"
  hours_delta :: "real \<Rightarrow> int"

text \<open>\<^verbatim>\<open>pd.Timestamp("2026-01-01")\<close>: 20454 days after the epoch.\<close>

definition base_2026 :: int where
  "base_2026 = 1767225600 * 1000000000"

definition fillna :: "int option \<Rightarrow> int" where
  "fillna c = (case c of None \<Rightarrow> base_2026 | Some t \<Rightarrow> t)"

text \<open>\<^verbatim>\<open>series.notna().mean()\<close>: the share of cells that are present.\<close>

definition notna_mean :: "'a option list \<Rightarrow> real" where
  "notna_mean xs = real (length (filter (\<lambda>x. x \<noteq> None) xs)) / real (length xs)"

text \<open>
  The argument \<open>col\<close> is \<open>None\<close> when the frame has no timestamp column; \<open>n\<close> is the
  number of rows. The result is the new timestamp column and \<^verbatim>\<open>has_ts\<close>.
\<close>

definition parse_timestamps :: "'c pandas \<Rightarrow> 'c list option \<Rightarrow> nat \<Rightarrow> int list \<times> bool" where
  "parse_timestamps pd col n =
    (case col of
       None \<Rightarrow> (map (\<lambda>i. base_2026 + timedelta_hours (int i)) [0..<n], False)
     | Some raw \<Rightarrow>
        (let numeric = map (to_numeric pd) raw in
         if list_all (\<lambda>x. x \<noteq> None) numeric then
           (let vals = map the numeric in
            if vals \<noteq> [] \<and> Max (set vals) > 1000000000 then
              (map (\<lambda>x. fillna (unix_s pd x)) vals, True)
            else if vals \<noteq> [] \<and> Max (set vals) > 1000000 then
              (map (\<lambda>x. fillna (unix_ms pd x)) vals, True)
            else (map (\<lambda>x. base_2026 + hours_delta pd x) vals, False))
         else
           (let parsed = map (to_datetime pd) raw in
            (map fillna parsed, notna_mean parsed > 1 / 2))))"

subsection \<open>The aggregated graph: \<^verbatim>\<open>_build_graph\<close>\<close>

text \<open>
  The attributes of an edge. The source stores the timestamp as the string that
  \<^verbatim>\<open>str\<close> makes of it; the model keeps the timestamp.
\<close>

record edge_attr =
  e_amount :: real
  e_tx_count :: nat
  e_transaction_id :: string
  e_timestamp :: int

type_synonym edge = "(account \<times> account) \<times> edge_attr"

record digraph =
  g_nodes :: "account list"
  g_edges :: "edge list"

definition edge_key :: "txn \<Rightarrow> account \<times> account" where
  "edge_key r = (sender_id r, receiver_id r)"

text \<open>\<^verbatim>\<open>groupby\<close> sorts the group keys.\<close>

definition group_keys :: "txn list \<Rightarrow> (account \<times> account) list" where
  "group_keys rows = sort (remdups (map edge_key rows))"

definition edge_agg :: "txn list \<Rightarrow> edge list" where
  "edge_agg rows =
     map (\<lambda>k. (k, \<lparr>e_amount = sum_list (map amount (filter (\<lambda>r. edge_key r = k) rows)),
                   e_tx_count = length (filter (\<lambda>r. edge_key r = k) rows),
                   e_transaction_id = transaction_id (hd (filter (\<lambda>r. edge_key r = k) rows)),
                   e_timestamp = timestamp (hd (filter (\<lambda>r. edge_key r = k) rows))\<rparr>))
       (group_keys rows)"

definition add_node :: "account \<Rightarrow> account list \<Rightarrow> account list" where
  "add_node n ns = (if n \<in> set ns then ns else ns @ [n])"

text \<open>
  \<^verbatim>\<open>add_edges_from\<close>: the nodes enter the graph in the order the edges name them. The
  keys of \<open>edge_agg\<close> are distinct, so every edge is new and is appended.
\<close>

fun add_edges_from :: "edge list \<Rightarrow> digraph \<Rightarrow> digraph" where
  "add_edges_from [] g = g"
| "add_edges_from (e # es) g =
     add_edges_from es
       \<lparr>g_nodes = add_node (snd (fst e)) (add_node (fst (fst e)) (g_nodes g)),
        g_edges = g_edges g @ [e]\<rparr>"

definition build_graph :: "txn list \<Rightarrow> digraph" where
  "build_graph rows = add_edges_from (edge_agg rows) \<lparr>g_nodes = [], g_edges = []\<rparr>"

definition in_degree :: "digraph \<Rightarrow> account \<Rightarrow> nat" where
  "in_degree g n = length (filter (\<lambda>e. snd (fst e) = n) (g_edges g))"

definition out_degree :: "digraph \<Rightarrow> account \<Rightarrow> nat" where
  "out_degree g n = length (filter (\<lambda>e. fst (fst e) = n) (g_edges g))"

definition successors :: "digraph \<Rightarrow> account \<Rightarrow> account list" where
  "successors g n = map (\<lambda>e. snd (fst e)) (filter (\<lambda>e. fst (fst e) = n) (g_edges g))"

text \<open>\<^verbatim>\<open>graph.edges(data=True)\<close>: node by node, the edges that leave the node.\<close>

definition edges_view :: "digraph \<Rightarrow> edge list" where
  "edges_view g = concat (map (\<lambda>u. filter (\<lambda>e. fst (fst e) = u) (g_edges g)) (g_nodes g))"

subsection \<open>Aggregates: \<^verbatim>\<open>_precompute\<close>\<close>

record aggregates =
  df :: "txn list"
  has_ts :: bool
  graph :: digraph
  in_amt :: "(account, real) dict"
  out_amt :: "(account, real) dict"
  in_deg :: "(account, nat) dict"
  out_deg :: "(account, nat) dict"

text \<open>\<^verbatim>\<open>groupby(key)["amount"].sum().to_dict()\<close>, the groups in sorted order.\<close>

definition group_sum ::
  "float_ops \<Rightarrow> (txn \<Rightarrow> account) \<Rightarrow> txn list \<Rightarrow> (account, real) dict" where
  "group_sum fl key rows =
     map (\<lambda>n. (n, fsum fl (map amount (filter (\<lambda>r. key r = n) rows))))
       (sort (remdups (map key rows)))"

definition degree_dict :: "digraph \<Rightarrow> (digraph \<Rightarrow> account \<Rightarrow> nat) \<Rightarrow> (account, nat) dict" where
  "degree_dict g deg = map (\<lambda>n. (n, deg g n)) (g_nodes g)"

definition precompute :: "float_ops \<Rightarrow> txn list \<Rightarrow> bool \<Rightarrow> aggregates" where
  "precompute fl rows ts =
     \<lparr>df = rows, has_ts = ts, graph = build_graph rows,
      in_amt = group_sum fl receiver_id rows, out_amt = group_sum fl sender_id rows,
      in_deg = degree_dict (build_graph rows) in_degree,
      out_deg = degree_dict (build_graph rows) out_degree\<rparr>"

subsection \<open>Cycles: \<^verbatim>\<open>_detect_cycles\<close>\<close>

text \<open>
  \<^verbatim>\<open>networkx.simple_cycles\<close> is not code of this repository. The argument \<open>stream\<close> is the
  list of cycles it yields, in its order, up to the deadline or to the exception that ends
  the loop. What it yields are simple cycles of the graph within the length bound.
\<close>

definition has_edge :: "digraph \<Rightarrow> account \<Rightarrow> account \<Rightarrow> bool" where
  "has_edge g u v = ((u, v) \<in> fst ` set (g_edges g))"

fun is_path :: "digraph \<Rightarrow> account list \<Rightarrow> bool" where
  "is_path g [] = True"
| "is_path g [x] = True"
| "is_path g (x # y # zs) = (has_edge g x y \<and> is_path g (y # zs))"

definition simple_cycle :: "digraph \<Rightarrow> account list \<Rightarrow> bool" where
  "simple_cycle g c =
     (c \<noteq> [] \<and> distinct c \<and> length c \<le> MAX_CYCLE_LEN \<and> is_path g (c @ [hd c]))"

fun record_cycles ::
  "account list list \<Rightarrow> account set list \<Rightarrow> account list list \<Rightarrow> account list list" where
  "record_cycles [] seen acc = acc"
| "record_cycles (c # cs) seen acc =
     (if length acc \<ge> MAX_CYCLES then acc
      else if length c \<ge> 3 \<and> set c \<notin> set seen
        then record_cycles cs (set c # seen) (acc @ [c])
      else record_cycles cs seen acc)"

definition detect_cycles :: "account list list \<Rightarrow> account list list" where
  "detect_cycles stream = record_cycles stream [] []"

subsection \<open>Fan-in and fan-out: \<^verbatim>\<open>_detect_fan\<close>\<close>

definition detect_fan :: "(account, nat) dict \<Rightarrow> account set" where
  "detect_fan deg = fst ` set (filter (\<lambda>nd. snd nd \<ge> FAN_THRESHOLD) deg)"

subsection \<open>Chains: \<^verbatim>\<open>_detect_chains\<close>\<close>

text \<open>
  The breadth-first search from one start: the queue holds nodes with their depth. The
  result is the node at which the loop breaks with depth at least \<open>MIN_CHAIN_LEN\<close>, if any.
\<close>

definition targets :: "digraph \<Rightarrow> account set" where
  "targets g = (\<lambda>e. snd (fst e)) ` set (g_edges g)"

function bfs :: "digraph \<Rightarrow> (account \<times> nat) list \<Rightarrow> account set \<Rightarrow> account option" where
  "bfs g [] visited = None"
| "bfs g ((node, depth) # queue) visited =
     (if depth \<ge> MIN_CHAIN_LEN then Some node
      else if depth > 6 then None
      else bfs g (queue @ map (\<lambda>s. (s, depth + 1))
                            (filter (\<lambda>s. s \<notin> visited) (successors g node)))
                 (visited \<union> set (filter (\<lambda>s. s \<notin> visited) (successors g node))))"
  by pat_completeness auto

termination bfs
proof (relation "measures [\<lambda>(g, q, vis). card (targets g - vis), \<lambda>(g, q, vis). length q]",
    goal_cases)
  case 1
  show ?case by simp
next
  case (2 g node depth queue visited)
  show ?case
  proof (cases "filter (\<lambda>s. s \<notin> visited) (successors g node)")
    case Nil
    show ?thesis unfolding Nil by simp
  next
    case (Cons x xs)
    then have "x \<in> set (filter (\<lambda>s. s \<notin> visited) (successors g node))" by simp
    then have x: "x \<in> set (successors g node)" "x \<notin> visited" by auto
    then have "x \<in> targets g" by (auto simp: successors_def targets_def)
    with x have "targets g - (visited \<union> set (filter (\<lambda>s. s \<notin> visited) (successors g node)))
             \<subset> targets g - visited"
      by auto
    moreover have "finite (targets g - visited)" by (simp add: targets_def)
    ultimately have "card (targets g - (visited \<union> set (filter (\<lambda>s. s \<notin> visited) (successors g node))))
             < card (targets g - visited)"
      by (rule psubset_card_mono [rotated])
    then show ?thesis by simp
  qed
qed

definition chain_of_start :: "digraph \<Rightarrow> account \<Rightarrow> account set" where
  "chain_of_start g start =
     (case bfs g [(start, 1)] {start} of None \<Rightarrow> {} | Some node \<Rightarrow> {start, node})"

definition detect_chains :: "digraph \<Rightarrow> account set" where
  "detect_chains g = (\<Union>start \<in> set (g_nodes g). chain_of_start g start)"

subsection \<open>Pass-through: \<^verbatim>\<open>_detect_passthrough\<close>\<close>

definition detect_passthrough :: "float_ops \<Rightarrow> aggregates \<Rightarrow> account set" where
  "detect_passthrough fl a =
     {node \<in> set (g_nodes (graph a)).
        get (in_amt a) node 0 > 0 \<and>
        fdiv fl (get (out_amt a) node 0) (get (in_amt a) node 0) > PASSTHROUGH_RATIO}"

subsection \<open>Round amounts: \<^verbatim>\<open>_detect_round_amounts\<close>\<close>

text \<open>Python's \<^verbatim>\<open>x % m\<close> on floats, for a positive \<open>m\<close>.\<close>

definition fmod :: "real \<Rightarrow> real \<Rightarrow> real" where
  "fmod x m = x - m * of_int \<lfloor>x / m\<rfloor>"

definition is_round :: "real \<Rightarrow> bool" where
  "is_round amt = (amt > 0 \<and> (amt \<in> ROUND_AMOUNTS \<or> fmod amt 1000 = 0))"

definition txns_of :: "txn list \<Rightarrow> account \<Rightarrow> txn list" where
  "txns_of rows acct = filter (\<lambda>r. sender_id r = acct \<or> receiver_id r = acct) rows"

definition round_count :: "txn list \<Rightarrow> nat" where
  "round_count txns = length (filter is_round (map amount txns))"

definition detect_round_amounts :: "aggregates \<Rightarrow> account set" where
  "detect_round_amounts a =
     {acct \<in> set (g_nodes (graph a)).
        length (txns_of (df a) acct) \<noteq> 0 \<and>
        real (round_count (txns_of (df a) acct)) / real (length (txns_of (df a) acct))
          \<ge> ROUND_RATIO_THRESHOLD}"

subsection \<open>Amount anomaly: \<^verbatim>\<open>_detect_amount_anomaly\<close>\<close>

definition mean :: "real list \<Rightarrow> real" where
  "mean xs = sum_list xs / real (length xs)"

text \<open>\<^verbatim>\<open>Series.std()\<close>: the sample standard deviation (one degree of freedom less).\<close>

definition std :: "real list \<Rightarrow> real" where
  "std xs = sqrt (sum_list (map (\<lambda>x. (x - mean xs)\<^sup>2) xs) / real (length xs - 1))"

definition detect_amount_anomaly :: "txn list \<Rightarrow> account set" where
  "detect_amount_anomaly rows =
     (if length rows < 5 then {}
      else if std (map amount rows) = 0 then {}
      else sender_id ` set (filter (\<lambda>r. amount r >
                 mean (map amount rows) + ANOMALY_SIGMA * std (map amount rows)) rows)
         \<union> receiver_id ` set (filter (\<lambda>r. amount r >
                 mean (map amount rows) + ANOMALY_SIGMA * std (map amount rows)) rows))"

subsection \<open>The sliding window of \<^verbatim>\<open>_detect_temporal\<close> and \<^verbatim>\<open>_detect_smurfing\<close>\<close>

text \<open>
  Both methods run the same two loops over a sorted list of timestamps: the inner loop
  moves \<open>left\<close> while the span to \<open>right\<close> exceeds the window, the outer loop moves
  \<open>right\<close> and breaks at the first window that passes the test \<open>hit\<close>. Indexing a Python
  list out of range raises \<^verbatim>\<open>IndexError\<close>: that is the result \<open>None\<close>.
\<close>

function advance_left :: "int list \<Rightarrow> int \<Rightarrow> nat \<Rightarrow> nat \<Rightarrow> nat option" where
  "advance_left ts window right left =
     (if length ts \<le> left \<or> length ts \<le> right then None
      else if ts ! right - ts ! left > window then advance_left ts window right (left + 1)
      else Some left)"
  by pat_completeness auto
termination
  by (relation "measure (\<lambda>(ts, w, r, l). length ts - l)") auto

function window_scan ::
  "int list \<Rightarrow> int \<Rightarrow> (nat \<Rightarrow> nat \<Rightarrow> bool) \<Rightarrow> nat \<Rightarrow> nat \<Rightarrow> bool option" where
  "window_scan ts window hit left right =
     (if length ts \<le> right then Some False
      else case advance_left ts window right left of
             None \<Rightarrow> None
           | Some l \<Rightarrow> if hit l right then Some True
                      else window_scan ts window hit l (right + 1))"
  by pat_completeness auto
termination
  by (relation "measure (\<lambda>(ts, w, h, l, r). length ts - r)") auto

declare advance_left.simps [simp del] window_scan.simps [simp del]

subsection \<open>Temporal clustering: \<^verbatim>\<open>_detect_temporal\<close>\<close>

definition accounts_of :: "txn list \<Rightarrow> account set" where
  "accounts_of rows = sender_id ` set rows \<union> receiver_id ` set rows"

definition account_ts :: "txn list \<Rightarrow> account \<Rightarrow> int list" where
  "account_ts rows acc =
     map timestamp (filter (\<lambda>r. sender_id r = acc) rows)
     @ map timestamp (filter (\<lambda>r. receiver_id r = acc) rows)"

definition temporal_hit :: "nat \<Rightarrow> nat \<Rightarrow> bool" where
  "temporal_hit left right = (int right - int left + 1 \<ge> int TEMPORAL_TX_MIN)"

definition temporal_flag :: "int list \<Rightarrow> bool" where
  "temporal_flag ts_list =
     (\<not> length ts_list < TEMPORAL_TX_MIN \<and>
      window_scan (sort ts_list) (timedelta_hours TEMPORAL_WINDOW_H) temporal_hit 0 0
        = Some True)"

definition detect_temporal :: "txn list \<Rightarrow> account set" where
  "detect_temporal rows = {acc \<in> accounts_of rows. temporal_flag (account_ts rows acc)}"

subsection \<open>Rapid dormancy: \<^verbatim>\<open>_detect_rapid_dormancy\<close>\<close>

definition dormant_at :: "int list \<Rightarrow> int \<Rightarrow> nat \<Rightarrow> bool" where
  "dormant_at ts global_max i =
     (let burst_end = i + DORMANCY_MIN_TXN - 1;
          last_burst_ts = ts ! burst_end;
          later_txns = filter (\<lambda>t. t > last_burst_ts) (drop (burst_end + 1) ts)
      in ts ! burst_end - ts ! i \<le> timedelta_hours DORMANCY_ACTIVE_H \<and>
         (if later_txns = []
          then global_max - last_burst_ts \<ge> timedelta_hours DORMANCY_SILENT_H
          else hd later_txns - last_burst_ts \<ge> timedelta_hours DORMANCY_SILENT_H))"

definition dormancy_flag :: "int list \<Rightarrow> int \<Rightarrow> bool" where
  "dormancy_flag ts_list global_max =
     (\<not> length ts_list < DORMANCY_MIN_TXN \<and>
      list_ex (dormant_at (sort ts_list) global_max)
        [0..<length ts_list - DORMANCY_MIN_TXN + 1])"

definition detect_rapid_dormancy :: "txn list \<Rightarrow> account set" where
  "detect_rapid_dormancy rows =
     {acct \<in> accounts_of rows.
        dormancy_flag (account_ts rows acct) (Max (set (map timestamp rows)))}"

subsection \<open>Smurfing: \<^verbatim>\<open>_detect_smurfing\<close>\<close>

definition inbound_rows :: "txn list \<Rightarrow> account \<Rightarrow> txn list" where
  "inbound_rows rows node = filter (\<lambda>r. receiver_id r = node) rows"

definition senders_to :: "txn list \<Rightarrow> account \<Rightarrow> account set" where
  "senders_to rows node = sender_id ` set (inbound_rows rows node)"

text \<open>
  The inbound rows are sorted by timestamp with \<^verbatim>\<open>sort_values\<close>; the model's sort keeps
  rows of equal timestamp in their order. The test on the slice
  \<^verbatim>\<open>sender_list[left:right + 1]\<close>:
\<close>

definition smurf_hit :: "account list \<Rightarrow> nat \<Rightarrow> nat \<Rightarrow> bool" where
  "smurf_hit sender_list left right =
     (card (set (take (right + 1 - left) (drop left sender_list))) \<ge> SMURF_MIN_SOURCES)"

definition smurf_window :: "txn list \<Rightarrow> bool" where
  "smurf_window inbound =
     (\<not> length inbound < SMURF_MIN_SOURCES \<and>
      window_scan (map timestamp inbound) (timedelta_hours SMURF_WINDOW_H)
        (smurf_hit (map sender_id inbound)) 0 0 = Some True)"

definition is_smurf_hub :: "aggregates \<Rightarrow> account \<Rightarrow> bool" where
  "is_smurf_hub a node =
     (if \<not> has_ts a then
        get (in_deg a) node 0 \<ge> SMURF_MIN_SOURCES \<and> get (out_deg a) node 0 \<le> 1 \<and>
        card (senders_to (df a) node) \<ge> SMURF_MIN_SOURCES
      else
        \<not> get (in_deg a) node 0 < SMURF_MIN_SOURCES \<and> \<not> get (out_deg a) node 0 > 1 \<and>
        smurf_window (sort_key timestamp (inbound_rows (df a) node)))"

definition detect_smurf_hubs :: "aggregates \<Rightarrow> account set" where
  "detect_smurf_hubs a = {node \<in> set (g_nodes (graph a)). is_smurf_hub a node}"

definition detect_smurf_sources :: "aggregates \<Rightarrow> account set" where
  "detect_smurf_sources a = (\<Union>node \<in> detect_smurf_hubs a. senders_to (df a) node)"

subsection \<open>Merchants: \<^verbatim>\<open>_detect_merchants\<close>\<close>

definition cycle_members :: "account list list \<Rightarrow> account set" where
  "cycle_members cs = \<Union> (set ` set cs)"

text \<open>The pass-through ratio \<open>pt\<close> of the merchant filter.\<close>

definition merchant_pt :: "float_ops \<Rightarrow> aggregates \<Rightarrow> account \<Rightarrow> real" where
  "merchant_pt fl a node =
     (if get (in_amt a) node 0 > 0
      then fdiv fl (get (out_amt a) node 0) (get (in_amt a) node 0) else 0)"

text \<open>
  The test \<^verbatim>\<open>ratio < 3.0\<close>, where the ratio is infinite for out-degree zero. The float
  quotient of two node counts compares with 3 as the exact quotient does (the counts are
  far below \<open>2\<^sup>5\<^sup>2\<close>).
\<close>

definition degree_ratio_low :: "nat \<Rightarrow> nat \<Rightarrow> bool" where
  "degree_ratio_low ind outd = (if outd = 0 then False else real ind / real outd < 3)"

definition is_merchant ::
  "float_ops \<Rightarrow> aggregates \<Rightarrow> account set \<Rightarrow> account list list \<Rightarrow> account \<Rightarrow> bool" where
  "is_merchant fl a hubs cs node =
     (\<not> get (in_deg a) node 0 < 5 \<and>
      node \<notin> hubs \<and>
      \<not> degree_ratio_low (get (in_deg a) node 0) (get (out_deg a) node 0) \<and>
      \<not> merchant_pt fl a node \<ge> MERCHANT_PT_CAP \<and>
      node \<notin> cycle_members cs)"

definition detect_merchants ::
  "float_ops \<Rightarrow> aggregates \<Rightarrow> account set \<Rightarrow> account list list \<Rightarrow> account set" where
  "detect_merchants fl a hubs cs =
     {node \<in> set (g_nodes (graph a)). is_merchant fl a hubs cs node}"

subsection \<open>All detectors: \<^verbatim>\<open>_detect_all\<close>\<close>

record detection =
  cycles :: "account list list"
  fan_in :: "account set"
  fan_out :: "account set"
  chains :: "account set"
  passthrough :: "account set"
  temporal :: "account set"
  merchants :: "account set"
  round_amount :: "account set"
  dormancy :: "account set"
  anomaly :: "account set"
  smurf_hubs :: "account set"
  smurf_sources :: "account set"

definition detect_all :: "float_ops \<Rightarrow> aggregates \<Rightarrow> account list list \<Rightarrow> detection" where
  "detect_all fl a stream =
     \<lparr>cycles = detect_cycles stream,
      fan_in = detect_fan (in_deg a),
      fan_out = detect_fan (out_deg a),
      chains = detect_chains (graph a),
      passthrough = detect_passthrough fl a,
      temporal = (if has_ts a then detect_temporal (df a) else {}),
      merchants = detect_merchants fl a (detect_smurf_hubs a) (detect_cycles stream),
      round_amount = detect_round_amounts a,
      dormancy = (if has_ts a then detect_rapid_dormancy (df a) else {}),
      anomaly = detect_amount_anomaly (df a),
      smurf_hubs = detect_smurf_hubs a,
      smurf_sources = detect_smurf_sources a\<rparr>"

subsection \<open>Scoring: \<^verbatim>\<open>_score\<close>\<close>

text \<open>Decimal formatting of a non-negative integer, and the format \<^verbatim>\<open>{i:03d}\<close>.\<close>

definition digit_char :: "nat \<Rightarrow> char" where
  "digit_char n = ''0123456789'' ! n"

function dec :: "nat \<Rightarrow> string" where
  "dec n = (if n < 10 then [digit_char n] else dec (n div 10) @ [digit_char (n mod 10)])"
  by pat_completeness auto
termination
  by (relation "measure id") auto

declare dec.simps [simp del]

definition pad3 :: "string \<Rightarrow> string" where
  "pad3 s = replicate (3 - length s) (CHR ''0'') @ s"

definition ring_id_of :: "nat \<Rightarrow> string" where
  "ring_id_of i = ''RING_'' @ pad3 (dec i)"

definition cycle_label :: "account list \<Rightarrow> string" where
  "cycle_label c = ''cycle_length_'' @ dec (length c)"

text \<open>\<^verbatim>\<open>enumerate(xs, 1)\<close>.\<close>

definition enumerate1 :: "'a list \<Rightarrow> (nat \<times> 'a) list" where
  "enumerate1 xs = zip [1..<Suc (length xs)] xs"

text \<open>
  The ring mapping: every occurrence of an account in a cycle appends the ring id to
  the account's list; the keys are in the order of their first occurrence.
\<close>

definition ring_ids_of :: "account list list \<Rightarrow> account \<Rightarrow> string list" where
  "ring_ids_of cs a =
     concat (map (\<lambda>ic. map (\<lambda>x. ring_id_of (fst ic)) (filter (\<lambda>x. x = a) (snd ic)))
               (enumerate1 cs))"

definition ring_table :: "account list list \<Rightarrow> (account, string list) dict" where
  "ring_table cs = map (\<lambda>a. (a, ring_ids_of cs a)) (rev (remdups (rev (concat cs))))"

text \<open>One step of the chain of tests: add the score and append the label.\<close>

definition bump :: "bool \<Rightarrow> nat \<Rightarrow> string \<Rightarrow> nat \<times> string list \<Rightarrow> nat \<times> string list" where
  "bump b k l sp = (if b then (fst sp + k, snd sp @ [l]) else sp)"

text \<open>
  The cycle step. \<^verbatim>\<open>list(set(p))\<close> removes duplicate labels and leaves them in an order
  that Python does not fix; the model keeps the last occurrence of each.
\<close>

definition cycle_part :: "detection \<Rightarrow> account \<Rightarrow> nat \<times> string list" where
  "cycle_part d node =
     (if node \<in> cycle_members (cycles d)
      then (CYCLE_SCORE, remdups (map cycle_label (filter (\<lambda>c. node \<in> set c) (cycles d))))
      else (0, []))"

definition signals :: "detection \<Rightarrow> account \<Rightarrow> nat \<times> string list" where
  "signals d node =
     bump (node \<in> smurf_sources d) SMURF_SCORE ''smurfing_source''
    (bump (node \<in> smurf_hubs d) SMURF_SCORE ''smurfing_hub''
    (bump (node \<in> chains d) CHAIN_SCORE ''layered_chain''
    (bump (node \<in> fan_out d) FAN_IO_SCORE ''fan_out''
    (bump (node \<in> fan_in d) FAN_IO_SCORE ''fan_in''
    (bump (node \<in> dormancy d) DORMANCY_SCORE ''rapid_dormancy''
    (bump (node \<in> round_amount d) ROUND_AMOUNT_SCORE ''round_amount_structuring''
    (bump (node \<in> temporal d) TEMPORAL_SCORE ''temporal_clustering''
    (bump (node \<in> anomaly d) AMOUNT_ANOMALY_SCORE ''amount_anomaly''
    (bump (node \<in> passthrough d) PASSTHROUGH_SCORE ''passthrough_shell''
    (cycle_part d node))))))))))"

definition score_node :: "detection \<Rightarrow> account \<Rightarrow> nat \<times> string list" where
  "score_node d node =
     (if node \<in> merchants d then (0, [''legitimate_merchant''])
      else (min (fst (signals d node)) MAX_SCORE, snd (signals d node)))"

record scoring =
  scores :: "(account, nat) dict"
  patterns :: "(account, string list) dict"
  rings :: "(account, string list) dict"

definition score :: "digraph \<Rightarrow> detection \<Rightarrow> scoring" where
  "score g d =
     \<lparr>scores = map (\<lambda>n. (n, fst (score_node d n))) (g_nodes g),
      patterns = map (\<lambda>n. (n, snd (score_node d n))) (g_nodes g),
      rings = ring_table (cycles d)\<rparr>"

subsection \<open>The result: \<^verbatim>\<open>_build_result\<close>\<close>

record suspicious_account =
  account_id :: string
  suspicion_score :: nat
  detected_patterns :: "string list"
  ring_id :: "string option"

record fraud_ring =
  fr_ring_id :: string
  member_accounts :: "string list"
  pattern_type :: string
  risk_score :: int

record graph_node =
  gn_id :: string
  is_suspicious :: bool
  gn_suspicion_score :: nat
  is_fraud_ring_member :: bool
  ring_ids :: "string list"

record graph_edge =
  source :: string
  target :: string
  ge_amount :: real
  ge_transaction_id :: string
  ge_timestamp :: int

record graph_data =
  gd_nodes :: "graph_node list"
  gd_edges :: "graph_edge list"

record analysis_result =
  suspicious_accounts :: "suspicious_account list"
  fraud_rings :: "fraud_ring list"
  total_accounts_analyzed :: nat
  suspicious_accounts_flagged :: nat
  fraud_rings_detected :: nat
  graph_data :: graph_data

text \<open>
  The suspicious accounts in the order of the score table, then sorted by score, highest
  first; Python's sort keeps ties in place.
\<close>

definition mk_suspicious :: "scoring \<Rightarrow> account \<times> nat \<Rightarrow> suspicious_account" where
  "mk_suspicious sc nsc =
     \<lparr>account_id = fst nsc, suspicion_score = snd nsc,
      detected_patterns = get (patterns sc) (fst nsc) [],
      ring_id = (case get (rings sc) (fst nsc) [] of [] \<Rightarrow> None | r # rs \<Rightarrow> Some r)\<rparr>"

definition suspicious_list :: "scoring \<Rightarrow> suspicious_account list" where
  "suspicious_list sc =
     sort_key (\<lambda>a. - int (suspicion_score a))
       (map (mk_suspicious sc)
          (filter (\<lambda>nsc. snd nsc \<ge> SUSPICIOUS_THRESHOLD) (scores sc)))"

text \<open>
  \<^verbatim>\<open>min(int(avg + 10), 100)\<close> with \<^verbatim>\<open>avg = sum(...) / len(c)\<close>: a true division, and
  \<^verbatim>\<open>int\<close> drops the fraction of a non-negative number.
\<close>

definition risk_score_of :: "(account, nat) dict \<Rightarrow> account list \<Rightarrow> int" where
  "risk_score_of sc c =
     min \<lfloor>real (sum_list (map (\<lambda>a. get sc a 0) c)) / real (length c) + 10\<rfloor> 100"

definition mk_ring :: "(account, nat) dict \<Rightarrow> nat \<times> account list \<Rightarrow> fraud_ring" where
  "mk_ring sc ic =
     \<lparr>fr_ring_id = ring_id_of (fst ic), member_accounts = snd ic,
      pattern_type = ''cycle'', risk_score = risk_score_of sc (snd ic)\<rparr>"

definition fraud_ring_list :: "(account, nat) dict \<Rightarrow> account list list \<Rightarrow> fraud_ring list" where
  "fraud_ring_list sc cs = map (mk_ring sc) (enumerate1 cs)"

definition ring_members :: "fraud_ring list \<Rightarrow> account set" where
  "ring_members fr = \<Union> (set ` member_accounts ` set fr)"

definition priority :: "(account, nat) dict \<Rightarrow> fraud_ring list \<Rightarrow> account set" where
  "priority sc fr =
     fst ` set (filter (\<lambda>nsc. snd nsc \<ge> SUSPICIOUS_THRESHOLD) sc) \<union> ring_members fr"

text \<open>
  Python iterates a set in an order it does not fix. The model lists a set in sorted
  order, both for \<^verbatim>\<open>list(all_nodes - priority)\<close> and for the loop over \<^verbatim>\<open>display\<close>.
\<close>

definition py_list :: "account set \<Rightarrow> account list" where
  "py_list S = sorted_list_of_set S"

definition display :: "digraph \<Rightarrow> account set \<Rightarrow> account set" where
  "display g prio =
     (if card (set (g_nodes g)) > MAX_VIZ_NODES
      then prio \<union> set (take (nat (max 0 (int MAX_VIZ_NODES - int (card prio))))
                          (py_list (set (g_nodes g) - prio)))
      else set (g_nodes g))"

definition mk_node :: "scoring \<Rightarrow> account set \<Rightarrow> account \<Rightarrow> graph_node" where
  "mk_node sc members n =
     \<lparr>gn_id = n, is_suspicious = (get (scores sc) n 0 \<ge> SUSPICIOUS_THRESHOLD),
      gn_suspicion_score = get (scores sc) n 0,
      is_fraud_ring_member = (n \<in> members), ring_ids = get (rings sc) n []\<rparr>"

definition mk_edge :: "edge \<Rightarrow> graph_edge" where
  "mk_edge e =
     \<lparr>source = fst (fst e), target = snd (fst e), ge_amount = e_amount (snd e),
      ge_transaction_id = e_transaction_id (snd e), ge_timestamp = e_timestamp (snd e)\<rparr>"

definition build_result :: "digraph \<Rightarrow> detection \<Rightarrow> scoring \<Rightarrow> analysis_result" where
  "build_result g d sc =
     (let sus = suspicious_list sc;
          fr = fraud_ring_list (scores sc) (cycles d);
          shown = display g (priority (scores sc) fr)
      in \<lparr>suspicious_accounts = sus,
          fraud_rings = fr,
          total_accounts_analyzed = length (g_nodes g),
          suspicious_accounts_flagged = length sus,
          fraud_rings_detected = length fr,
          graph_data =
            \<lparr>gd_nodes = map (mk_node sc (ring_members fr)) (py_list shown),
             gd_edges = map mk_edge
               (filter (\<lambda>e. fst (fst e) \<in> shown \<and> snd (fst e) \<in> shown) (edges_view g))\<rparr>\<rparr>)"

subsection \<open>The pipeline: \<^verbatim>\<open>analyze\<close> after parsing\<close>

text \<open>
  The arguments are the float arithmetic, the rows of the frame after \<^verbatim>\<open>_parse_csv\<close>,
  the flag \<^verbatim>\<open>has_ts\<close> and the cycles the graph library yields.
\<close>

definition detected :: "float_ops \<Rightarrow> txn list \<Rightarrow> bool \<Rightarrow> account list list \<Rightarrow> detection" where
  "detected fl rows ts stream = detect_all fl (precompute fl rows ts) stream"

definition scored :: "float_ops \<Rightarrow> txn list \<Rightarrow> bool \<Rightarrow> account list list \<Rightarrow> scoring" where
  "scored fl rows ts stream = score (build_graph rows) (detected fl rows ts stream)"

definition analyze :: "float_ops \<Rightarrow> txn list \<Rightarrow> bool \<Rightarrow> account list list \<Rightarrow> analysis_result" where
  "analyze fl rows ts stream =
     build_result (build_graph rows) (detected fl rows ts stream) (scored fl rows ts stream)"

section \<open>Notions used in the statements\<close>

definition receivers_from :: "txn list \<Rightarrow> account \<Rightarrow> account set" where
  "receivers_from rows node = receiver_id ` set (filter (\<lambda>r. sender_id r = node) rows)"

text \<open>
  The total inbound and outbound amount of an account as the engine has them: the float
  sum over its rows, and 0 for an account with no such row.
\<close>

definition total_inbound :: "float_ops \<Rightarrow> txn list \<Rightarrow> account \<Rightarrow> real" where
  "total_inbound fl rows n =
     (if n \<in> receiver_id ` set rows
      then fsum fl (map amount (filter (\<lambda>r. receiver_id r = n) rows)) else 0)"

definition total_outbound :: "float_ops \<Rightarrow> txn list \<Rightarrow> account \<Rightarrow> real" where
  "total_outbound fl rows n =
     (if n \<in> sender_id ` set rows
      then fsum fl (map amount (filter (\<lambda>r. sender_id r = n) rows)) else 0)"




text \<open>Membership in one of the eleven detector sets.\<close>

definition in_detector_set :: "detection \<Rightarrow> account \<Rightarrow> bool" where
  "in_detector_set d a =
     (a \<in> cycle_members (cycles d) \<or> a \<in> fan_in d \<or> a \<in> fan_out d \<or> a \<in> chains d \<or>
      a \<in> passthrough d \<or> a \<in> temporal d \<or> a \<in> round_amount d \<or> a \<in> dormancy d \<or>
      a \<in> anomaly d \<or> a \<in> smurf_hubs d \<or> a \<in> smurf_sources d)"

text \<open>The number of cells of the raw column that parse as a datetime.\<close>

definition parsed_count :: "'c pandas \<Rightarrow> 'c list \<Rightarrow> nat" where
  "parsed_count pd raw = length (filter (\<lambda>c. to_datetime pd c \<noteq> None) raw)"

definition variance :: "real list \<Rightarrow> real" where
  "variance xs = sum_list (map (\<lambda>x. (x - mean xs)\<^sup>2) xs) / real (length xs - 1)"

text \<open>The mean of the members' scores, a missing score counting as 0.\<close>

definition mean_score :: "(account, nat) dict \<Rightarrow> account list \<Rightarrow> real" where
  "mean_score sc c = real (sum_list (map (\<lambda>a. get sc a 0) c)) / real (length c)"

text \<open>The risk score with the mean rounded to the nearest integer.\<close>

definition spec_risk_score :: "(account, nat) dict \<Rightarrow> account list \<Rightarrow> int" where
  "spec_risk_score sc c = min 100 (round (mean_score sc c) + 10)"

text \<open>
  The position \<open>l\<close> is where the left end of the window stands for the right end \<open>r\<close>:
  the first position whose timestamp is within the window of the one at \<open>r\<close>.
\<close>

definition is_left :: "int list \<Rightarrow> int \<Rightarrow> nat \<Rightarrow> nat \<Rightarrow> bool" where
  "is_left ts w l r = (l \<le> r \<and> ts ! r - ts ! l \<le> w \<and> (\<forall>k<l. ts ! r - ts ! k > w))"

text \<open>
  The sorted timestamps of all rows in which the account is sender or receiver.
\<close>

definition timeline :: "txn list \<Rightarrow> account \<Rightarrow> int list" where
  "timeline rows acc = sort (map timestamp (txns_of rows acc))"

text \<open>
  Ten consecutive timestamps of a sorted list span at most 72 hours; and the same with a
  span of strictly less than 72 hours, the right-open window.
\<close>

definition dense_window :: "int list \<Rightarrow> bool" where
  "dense_window T =
     list_ex (\<lambda>i. T ! (i + 9) - T ! i \<le> timedelta_hours 72) [0..<length T - 9]"

definition dense_window_open :: "int list \<Rightarrow> bool" where
  "dense_window_open T =
     list_ex (\<lambda>i. T ! (i + 9) - T ! i < timedelta_hours 72) [0..<length T - 9]"

text \<open>The senders of the rows whose timestamps lie in the 24 hours from \<open>t0\<close> on.\<close>

definition window_senders :: "txn list \<Rightarrow> int \<Rightarrow> account set" where
  "window_senders inb t0 =
     sender_id ` {r \<in> set inb. t0 \<le> timestamp r \<and> timestamp r \<le> t0 + timedelta_hours 24}"

subsection \<open>Example inputs\<close>

text \<open>
  Arithmetic without rounding. On the inputs below the amounts are whole numbers, whose
  sums floats form exactly, and no quotient lies near a threshold.
\<close>

definition exact_ops :: float_ops where
  "exact_ops = \<lparr>fsum = sum_list, fdiv = (\<lambda>x y. x / y)\<rparr>"

definition tx :: "string \<Rightarrow> account \<Rightarrow> account \<Rightarrow> real \<Rightarrow> int \<Rightarrow> txn" where
  "tx tid s r a t =
     \<lparr>transaction_id = tid, sender_id = s, receiver_id = r, amount = a, timestamp = t\<rparr>"

text \<open>A parser that reads one date and nothing else.\<close>

definition pd_ex :: "string pandas" where
  "pd_ex = \<lparr>to_numeric = (\<lambda>c. None),
            to_datetime = (\<lambda>c. if c = ''2026-01-02''
                                then Some (base_2026 + timedelta_hours 24) else None),
            unix_s = (\<lambda>x. None), unix_ms = (\<lambda>x. None), hours_delta = (\<lambda>x. 0)\<rparr>"


text \<open>Six customers pay a shop, which pays two suppliers.\<close>

definition rows_shop :: "txn list" where
  "rows_shop =
     [tx ''1'' ''C1'' ''M'' 50 0, tx ''2'' ''C2'' ''M'' 50 0, tx ''3'' ''C3'' ''M'' 50 0,
      tx ''4'' ''C4'' ''M'' 50 0, tx ''5'' ''C5'' ''M'' 50 0, tx ''6'' ''C6'' ''M'' 50 0,
      tx ''7'' ''M'' ''S1'' 10 0, tx ''8'' ''M'' ''S2'' 10 0]"

text \<open>The triangle \<open>A \<rightarrow> B \<rightarrow> C \<rightarrow> A\<close> with falling amounts.\<close>

definition rows_tri :: "txn list" where
  "rows_tri = [tx ''1'' ''A'' ''B'' 1000 0, tx ''2'' ''B'' ''C'' 500 0, tx ''3'' ''C'' ''A'' 250 0]"

text \<open>
  Five accounts pay into \<open>H1\<close>, which pays once into \<open>H2\<close>, which four more accounts
  pay into. The graph has no cycle.
\<close>

definition rows_hubs :: "txn list" where
  "rows_hubs =
     [tx ''1'' ''U1'' ''H1'' 100 0, tx ''2'' ''U2'' ''H1'' 100 0, tx ''3'' ''U3'' ''H1'' 100 0,
      tx ''4'' ''U4'' ''H1'' 100 0, tx ''5'' ''U5'' ''H1'' 100 0, tx ''6'' ''H1'' ''H2'' 100 0,
      tx ''7'' ''V1'' ''H2'' 100 0, tx ''8'' ''V2'' ''H2'' 100 0, tx ''9'' ''V3'' ''H2'' 100 0,
      tx ''10'' ''V4'' ''H2'' 100 0]"


text \<open>Ten transactions from \<open>A\<close> to \<open>B\<close>, eight hours apart.\<close>

definition rows_burst :: "txn list" where
  "rows_burst = map (\<lambda>k. tx ''t'' ''A'' ''B'' 5 (timedelta_hours (8 * int k))) [0..<10]"

text \<open>
  Five accounts pay into \<open>H\<close> within five hours; \<open>H\<close> pays three times into \<open>Z\<close>.
\<close>

definition rows_sink :: "txn list" where
  "rows_sink =
     [tx ''1'' ''U1'' ''H'' 100 (timedelta_hours 0), tx ''2'' ''U2'' ''H'' 100 (timedelta_hours 1),
      tx ''3'' ''U3'' ''H'' 100 (timedelta_hours 2), tx ''4'' ''U4'' ''H'' 100 (timedelta_hours 3),
      tx ''5'' ''U5'' ''H'' 100 (timedelta_hours 4), tx ''6'' ''H'' ''Z'' 10 (timedelta_hours 5),
      tx ''7'' ''H'' ''Z'' 10 (timedelta_hours 6), tx ''8'' ''H'' ''Z'' 10 (timedelta_hours 7)]"

text \<open>The priority set of \<^verbatim>\<open>_build_result\<close> on the pipeline.\<close>

definition shown_priority :: "float_ops \<Rightarrow> txn list \<Rightarrow> bool \<Rightarrow> account list list \<Rightarrow> account set" where
  "shown_priority fl rows ts stream =
     priority (scores (scored fl rows ts stream)) (fraud_rings (analyze fl rows ts stream))"

text \<open>
  2001 accounts, named by one to 2001 letters \<open>u\<close>, each pay once into \<open>H\<close>. The
  graph has no cycle.
\<close>

definition sender_name :: "nat \<Rightarrow> account" where
  "sender_name i = replicate (Suc i) (CHR ''u'')"

definition rows_crowd :: "txn list" where
  "rows_crowd = map (\<lambda>i. tx (dec (Suc i)) (sender_name i) ''H'' 100 0) [0..<2001]"

section \<open>Properties\<close>

subsection \<open>The anomaly detector without the square root\<close>

text \<open>
  The comparison with the mean plus three standard deviations, stated on the variance,
  so that the detector can be evaluated on a concrete input.
\<close>

lemma variance_nonneg: "0 \<le> variance xs"
  unfolding variance_def by (intro divide_nonneg_nonneg sum_list_nonneg) auto

lemma std_variance: "std xs = sqrt (variance xs)"
  by (simp add: std_def variance_def)

lemma above_sigma_iff:
  "a > m + ANOMALY_SIGMA * std xs \<longleftrightarrow> a - m > 0 \<and> (a - m)\<^sup>2 > 9 * variance xs"
proof -
  have nn: "0 \<le> 9 * variance xs" using variance_nonneg [of xs] by simp
  have s: "ANOMALY_SIGMA * std xs = sqrt (9 * variance xs)"
    by (simp add: ANOMALY_SIGMA_def std_variance real_sqrt_mult)
  have "a > m + ANOMALY_SIGMA * std xs \<longleftrightarrow> sqrt (9 * variance xs) < a - m"
    unfolding s by auto
  also have "\<dots> \<longleftrightarrow> a - m > 0 \<and> (a - m)\<^sup>2 > 9 * variance xs"
  proof (cases "a - m > 0")
    case True
    then have "sqrt ((a - m)\<^sup>2) = a - m" by simp
    then have "sqrt (9 * variance xs) < a - m \<longleftrightarrow> sqrt (9 * variance xs) < sqrt ((a - m)\<^sup>2)"
      by simp
    also have "\<dots> \<longleftrightarrow> 9 * variance xs < (a - m)\<^sup>2" by (rule real_sqrt_less_iff)
    finally show ?thesis using True by simp
  next
    case False
    moreover have "0 \<le> sqrt (9 * variance xs)" using nn by simp
    ultimately show ?thesis by linarith
  qed
  finally show ?thesis .
qed

lemma detect_amount_anomaly_code [code]:
  "detect_amount_anomaly rows =
     (if length rows < 5 then {}
      else if variance (map amount rows) = 0 then {}
      else sender_id ` set (filter (\<lambda>r. amount r - mean (map amount rows) > 0 \<and>
                 (amount r - mean (map amount rows))\<^sup>2 > 9 * variance (map amount rows)) rows)
         \<union> receiver_id ` set (filter (\<lambda>r. amount r - mean (map amount rows) > 0 \<and>
                 (amount r - mean (map amount rows))\<^sup>2 > 9 * variance (map amount rows)) rows))"
  unfolding detect_amount_anomaly_def above_sigma_iff
  by (simp add: std_variance)

subsection \<open>The graph and the aggregates\<close>

lemma add_edges_from_edges: "g_edges (add_edges_from es g) = g_edges g @ es"
  by (induction es arbitrary: g) auto

lemma add_edges_from_nodes:
  "set (g_nodes (add_edges_from es g)) =
     set (g_nodes g) \<union> (\<lambda>e. fst (fst e)) ` set es \<union> (\<lambda>e. snd (fst e)) ` set es"
  by (induction es arbitrary: g) (auto simp: add_node_def)

lemma add_edges_from_distinct:
  "distinct (g_nodes g) \<Longrightarrow> distinct (g_nodes (add_edges_from es g))"
  by (induction es arbitrary: g) (auto simp: add_node_def)

lemma build_graph_edges: "g_edges (build_graph rows) = edge_agg rows"
  by (simp add: build_graph_def add_edges_from_edges)

lemma edge_agg_keys: "map fst (edge_agg rows) = group_keys rows"
  by (simp add: edge_agg_def comp_def)

lemma set_group_keys: "set (group_keys rows) = edge_key ` set rows"
  by (simp add: group_keys_def)

lemma distinct_group_keys: "distinct (group_keys rows)"
  by (simp add: group_keys_def)

lemma build_graph_nodes: "set (g_nodes (build_graph rows)) = accounts_of rows"
proof -
  have "(\<lambda>e. fst (fst e)) ` set (edge_agg rows) = fst ` set (map fst (edge_agg rows))"
    by (simp add: image_image)
  moreover have "(\<lambda>e. snd (fst e)) ` set (edge_agg rows) = snd ` set (map fst (edge_agg rows))"
    by (simp add: image_image)
  ultimately show ?thesis
    unfolding build_graph_def add_edges_from_nodes edge_agg_keys set_group_keys accounts_of_def
    by (auto simp: edge_key_def image_image)
qed

lemma build_graph_distinct: "distinct (g_nodes (build_graph rows))"
  by (simp add: build_graph_def add_edges_from_distinct)

lemma in_degree_build:
  "in_degree (build_graph rows) n = card (senders_to rows n)"
proof -
  have "in_degree (build_graph rows) n = length (filter (\<lambda>k. snd k = n) (group_keys rows))"
    unfolding in_degree_def build_graph_edges
    by (simp add: edge_agg_def filter_map comp_def)
  also have "\<dots> = card {k \<in> set (group_keys rows). snd k = n}"
    using distinct_group_keys [of rows] by (simp add: distinct_length_filter Int_def conj_commute)
  also have "{k \<in> set (group_keys rows). snd k = n} = (\<lambda>u. (u, n)) ` senders_to rows n"
    by (auto simp: set_group_keys senders_to_def inbound_rows_def edge_key_def)
  also have "card \<dots> = card (senders_to rows n)"
    by (rule card_image) (simp add: inj_on_def)
  finally show ?thesis .
qed

lemma out_degree_build:
  "out_degree (build_graph rows) n = card (receivers_from rows n)"
proof -
  have "out_degree (build_graph rows) n = length (filter (\<lambda>k. fst k = n) (group_keys rows))"
    unfolding out_degree_def build_graph_edges
    by (simp add: edge_agg_def filter_map comp_def)
  also have "\<dots> = card {k \<in> set (group_keys rows). fst k = n}"
    using distinct_group_keys [of rows] by (simp add: distinct_length_filter Int_def conj_commute)
  also have "{k \<in> set (group_keys rows). fst k = n} = (\<lambda>v. (n, v)) ` receivers_from rows n"
    by (auto simp: set_group_keys receivers_from_def edge_key_def)
  also have "card \<dots> = card (receivers_from rows n)"
    by (rule card_image) (simp add: inj_on_def)
  finally show ?thesis .
qed

lemma senders_to_accounts: "senders_to rows n \<noteq> {} \<Longrightarrow> n \<in> accounts_of rows"
  by (auto simp: senders_to_def inbound_rows_def accounts_of_def)

lemma get_dict: "get (map (\<lambda>k. (k, f k)) ks) n d = (if n \<in> set ks then f n else d)"
  by (simp add: get_def map_of_map_restrict restrict_map_def)

lemma get_in_deg: "get (in_deg (precompute fl rows ts)) n 0 = card (senders_to rows n)"
proof (cases "n \<in> accounts_of rows")
  case True
  then show ?thesis
    by (simp add: precompute_def degree_dict_def get_dict build_graph_nodes in_degree_build)
next
  case False
  then have "senders_to rows n = {}" using senders_to_accounts by blast
  with False show ?thesis
    by (simp add: precompute_def degree_dict_def get_dict build_graph_nodes)
qed

lemma get_out_deg: "get (out_deg (precompute fl rows ts)) n 0 = card (receivers_from rows n)"
proof (cases "n \<in> accounts_of rows")
  case True
  then show ?thesis
    by (simp add: precompute_def degree_dict_def get_dict build_graph_nodes out_degree_build)
next
  case False
  then have "receivers_from rows n = {}"
    by (auto simp: receivers_from_def accounts_of_def)
  with False show ?thesis
    by (simp add: precompute_def degree_dict_def get_dict build_graph_nodes)
qed

lemma get_group_sum:
  "get (group_sum fl key rows) n 0 =
     (if n \<in> key ` set rows then fsum fl (map amount (filter (\<lambda>r. key r = n) rows)) else 0)"
  by (simp add: group_sum_def get_dict)

lemma get_in_amt: "get (in_amt (precompute fl rows ts)) n 0 = total_inbound fl rows n"
  by (simp add: precompute_def get_group_sum total_inbound_def)

lemma get_out_amt: "get (out_amt (precompute fl rows ts)) n 0 = total_outbound fl rows n"
  by (simp add: precompute_def get_group_sum total_outbound_def)

lemma graph_precompute: "graph (precompute fl rows ts) = build_graph rows"
  by (simp add: precompute_def)

lemma merchants_detected:
  "merchants (detected fl rows ts stream) =
     {n \<in> accounts_of rows.
        is_merchant fl (precompute fl rows ts) (detect_smurf_hubs (precompute fl rows ts))
          (detect_cycles stream) n}"
  by (simp add: detected_def detect_all_def detect_merchants_def graph_precompute
      build_graph_nodes)

lemma passthrough_detected:
  "passthrough (detected fl rows ts stream) =
     {n \<in> accounts_of rows. total_inbound fl rows n > 0 \<and>
        fdiv fl (total_outbound fl rows n) (total_inbound fl rows n) > PASSTHROUGH_RATIO}"
  by (simp add: detected_def detect_all_def detect_passthrough_def graph_precompute
      build_graph_nodes get_in_amt get_out_amt)



lemma smurf_hubs_detected:
  "smurf_hubs (detected fl rows ts stream) = detect_smurf_hubs (precompute fl rows ts)"
  by (simp add: detected_def detect_all_def)

lemma cycles_detected: "cycles (detected fl rows ts stream) = detect_cycles stream"
  by (simp add: detected_def detect_all_def)

lemma shop_nodes:
  "set (g_nodes (build_graph rows_shop)) =
     {''C1'', ''C2'', ''C3'', ''C4'', ''C5'', ''C6'', ''M'', ''S1'', ''S2''}"
  by code_simp

subsection \<open>Merchants and pass-through shells\<close>

text \<open>
  C8. For every input, no account is both in the merchant set and in the pass-through
  set: the first needs the ratio of total outbound to total inbound amount below 0.5, the
  second needs it above 0.98, over the same totals.
\<close>

theorem C8_merchants_passthrough_disjoint:
  "merchants (detected fl rows ts stream) \<inter> passthrough (detected fl rows ts stream) = {}"
proof -
  have False
    if m: "n \<in> merchants (detected fl rows ts stream)"
      and p: "n \<in> passthrough (detected fl rows ts stream)" for n
  proof -
    from p have pos: "total_inbound fl rows n > 0"
      and big: "fdiv fl (total_outbound fl rows n) (total_inbound fl rows n) > 98 / 100"
      by (simp_all add: passthrough_detected PASSTHROUGH_RATIO_def)
    from m have "\<not> merchant_pt fl (precompute fl rows ts) n \<ge> 1 / 2"
      by (simp add: merchants_detected is_merchant_def MERCHANT_PT_CAP_def)
    with pos have "fdiv fl (total_outbound fl rows n) (total_inbound fl rows n) < 1 / 2"
      by (simp add: merchant_pt_def get_in_amt get_out_amt)
    with big show False by linarith
  qed
  then show ?thesis by blast
qed

theorem C8_witness:
  "merchants (detected exact_ops rows_shop False []) \<inter> passthrough (detected exact_ops rows_shop False []) = {}
   \<and> ''M'' \<in> merchants (detected exact_ops rows_shop False [])"
proof -
  have "''M'' \<in> merchants (detected exact_ops rows_shop False [])" by code_simp
  with C8_merchants_passthrough_disjoint [of exact_ops rows_shop False "[]"] show ?thesis
    by simp
qed




subsection \<open>Scores\<close>

lemma fst_bump: "fst (bump b k l sp) = fst sp + (if b then k else 0)"
  by (simp add: bump_def)

lemma snd_bump: "snd (bump b k l sp) = snd sp @ (if b then [l] else [])"
  by (simp add: bump_def)

lemma fst_cycle_part:
  "fst (cycle_part d a) = (if a \<in> cycle_members (cycles d) then CYCLE_SCORE else 0)"
  by (simp add: cycle_part_def)

lemma fst_signals:
  "fst (signals d a) =
     (if a \<in> cycle_members (cycles d) then CYCLE_SCORE else 0)
   + (if a \<in> passthrough d then PASSTHROUGH_SCORE else 0)
   + (if a \<in> anomaly d then AMOUNT_ANOMALY_SCORE else 0)
   + (if a \<in> temporal d then TEMPORAL_SCORE else 0)
   + (if a \<in> round_amount d then ROUND_AMOUNT_SCORE else 0)
   + (if a \<in> dormancy d then DORMANCY_SCORE else 0)
   + (if a \<in> fan_in d then FAN_IO_SCORE else 0)
   + (if a \<in> fan_out d then FAN_IO_SCORE else 0)
   + (if a \<in> chains d then CHAIN_SCORE else 0)
   + (if a \<in> smurf_hubs d then SMURF_SCORE else 0)
   + (if a \<in> smurf_sources d then SMURF_SCORE else 0)"
  unfolding signals_def fst_bump fst_cycle_part by (rule refl)

lemma signals_zero_iff: "fst (signals d a) = 0 \<longleftrightarrow> \<not> in_detector_set d a"
  unfolding fst_signals in_detector_set_def score_consts by auto

lemma score_node_zero_iff:
  "fst (score_node d a) = 0 \<longleftrightarrow> a \<in> merchants d \<or> \<not> in_detector_set d a"
  using signals_zero_iff [of d a] by (auto simp: score_node_def MAX_SCORE_def)

lemma scores_score: "map_of (scores (score g d)) a =
    (if a \<in> set (g_nodes g) then Some (fst (score_node d a)) else None)"
  by (simp add: score_def map_of_map_restrict restrict_map_def)

lemma patterns_score: "map_of (patterns (score g d)) a =
    (if a \<in> set (g_nodes g) then Some (snd (score_node d a)) else None)"
  by (simp add: score_def map_of_map_restrict restrict_map_def)

text \<open>
  C3. For every graph, every outcome of the detectors and every account of the graph:
  the score is 0 if and only if the account is a merchant or is in no detector set; a
  merchant has the pattern list \<open>["legitimate_merchant"]\<close>; an account that is no merchant
  and is in some detector set has a positive score.
\<close>

theorem C3_score_zero_iff:
  assumes "a \<in> set (g_nodes g)"
  shows "(map_of (scores (score g d)) a = Some 0 \<longleftrightarrow> a \<in> merchants d \<or> \<not> in_detector_set d a)
       \<and> (a \<in> merchants d \<longrightarrow> map_of (patterns (score g d)) a = Some [''legitimate_merchant''])
       \<and> (a \<notin> merchants d \<and> in_detector_set d a \<longrightarrow>
            (\<exists>s. map_of (scores (score g d)) a = Some s \<and> s > 0))"
  using assms score_node_zero_iff [of d a]
  by (auto simp: scores_score patterns_score score_node_def)

theorem C3_witness:
  "''M'' \<in> set (g_nodes (build_graph rows_shop)) \<and>
   map_of (scores (score (build_graph rows_shop) (detected exact_ops rows_shop False []))) ''M'' = Some 0 \<and>
   map_of (patterns (score (build_graph rows_shop) (detected exact_ops rows_shop False []))) ''M''
     = Some [''legitimate_merchant'']"
proof -
  have h: "''M'' \<in> set (g_nodes (build_graph rows_shop))" by (simp add: shop_nodes)
  have "''M'' \<in> merchants (detected exact_ops rows_shop False [])" by code_simp
  with C3_score_zero_iff [OF h, of "detected exact_ops rows_shop False []"] h show ?thesis by blast
qed

subsection \<open>The timestamp flag\<close>

lemma notna_mean_gt_half:
  "xs \<noteq> [] \<Longrightarrow> notna_mean xs > 1 / 2 \<longleftrightarrow> 2 * length (filter (\<lambda>x. x \<noteq> None) xs) > length xs"
proof -
  assume "xs \<noteq> []"
  then have "real (length xs) > 0" by simp
  then have "notna_mean xs > 1 / 2 \<longleftrightarrow> 2 * real (length (filter (\<lambda>x. x \<noteq> None) xs)) > real (length xs)"
    unfolding notna_mean_def by (simp add: field_simps)
  also have "\<dots> \<longleftrightarrow> 2 * length (filter (\<lambda>x. x \<noteq> None) xs) > length xs"
    by (metis of_nat_less_iff of_nat_mult of_nat_numeral)
  finally show ?thesis .
qed

text \<open>
  C7. When the timestamp column is present and not every cell is numeric, the
  flag \<open>has_ts\<close> is true if and only if strictly more than half of the cells parse as a
  datetime.
\<close>

theorem C7_has_ts_strict_majority:
  assumes "\<not> list_all (\<lambda>c. to_numeric pd c \<noteq> None) raw"
  shows "snd (parse_timestamps pd (Some raw) n) \<longleftrightarrow> 2 * parsed_count pd raw > length raw"
proof -
  from assms have ne: "raw \<noteq> []" by auto
  from assms have "\<not> list_all (\<lambda>x. x \<noteq> None) (map (to_numeric pd) raw)"
    by (simp add: list_all_iff)
  then have "snd (parse_timestamps pd (Some raw) n) = (notna_mean (map (to_datetime pd) raw) > 1 / 2)"
    by (simp add: parse_timestamps_def Let_def)
  also have "\<dots> \<longleftrightarrow> 2 * length (filter (\<lambda>x. x \<noteq> None) (map (to_datetime pd) raw)) > length raw"
    using ne notna_mean_gt_half [of "map (to_datetime pd) raw"] by simp
  also have "length (filter (\<lambda>x. x \<noteq> None) (map (to_datetime pd) raw)) = parsed_count pd raw"
    by (simp add: parsed_count_def filter_map comp_def)
  finally show ?thesis .
qed

text \<open>
  With two cells of which one parses, exactly half parse, and the flag is false.
\<close>

theorem C7_counterexample:
  "2 * parsed_count pd_ex [''2026-01-02'', ''soon''] = length [''2026-01-02'', ''soon'']
   \<and> \<not> list_all (\<lambda>c. to_numeric pd_ex c \<noteq> None) [''2026-01-02'', ''soon'']
   \<and> \<not> snd (parse_timestamps pd_ex (Some [''2026-01-02'', ''soon'']) 2)"
  by (simp add: parse_timestamps_def pd_ex_def parsed_count_def notna_mean_def Let_def)

theorem C7_witness:
  "\<not> list_all (\<lambda>c. to_numeric pd_ex c \<noteq> None) [''2026-01-02'', ''2026-01-02'', ''soon'']
   \<and> snd (parse_timestamps pd_ex (Some [''2026-01-02'', ''2026-01-02'', ''soon'']) 3)"
proof -
  have h: "\<not> list_all (\<lambda>c. to_numeric pd_ex c \<noteq> None) [''2026-01-02'', ''2026-01-02'', ''soon'']"
    by (simp add: pd_ex_def)
  have "2 * parsed_count pd_ex [''2026-01-02'', ''2026-01-02'', ''soon''] > length [''2026-01-02'', ''2026-01-02'', ''soon'']"
    by (simp add: pd_ex_def parsed_count_def)
  with C7_has_ts_strict_majority [OF h, of 3] h show ?thesis by blast
qed

subsection \<open>Fraud rings\<close>

lemma risk_score_floor: "risk_score_of sc c = min 100 (\<lfloor>mean_score sc c\<rfloor> + 10)"
proof -
  have "\<lfloor>mean_score sc c + 10\<rfloor> = \<lfloor>mean_score sc c\<rfloor> + 10"
    by linarith
  then show ?thesis by (simp add: risk_score_of_def mean_score_def min.commute)
qed

lemma fraud_rings_analyze:
  "fraud_rings (analyze fl rows ts stream) =
     fraud_ring_list (scores (scored fl rows ts stream)) (cycles (detected fl rows ts stream))"
  by (simp add: analyze_def build_result_def Let_def)

lemma length_enumerate1: "length (enumerate1 xs) = length xs"
  by (simp add: enumerate1_def del: upt_Suc)

lemma enumerate1_nth: "i < length xs \<Longrightarrow> enumerate1 xs ! i = (Suc i, xs ! i)"
  by (simp add: enumerate1_def del: upt_Suc)

text \<open>
  C2. For every recorded cycle, in discovery order with 1-based index, the
  fraud ring has the id \<open>RING_\<close> followed by the index zero-padded to width 3, the
  cycle's node list as members, the pattern type \<open>cycle\<close>, and the risk score
  \<open>min(100, floor(mean) + 10)\<close>: the mean of the members' scores loses its fraction.
\<close>

theorem C2_fraud_rings:
  assumes "i < length (cycles (detected fl rows ts stream))"
  shows "length (fraud_rings (analyze fl rows ts stream)) = length (cycles (detected fl rows ts stream))
    \<and> fraud_rings (analyze fl rows ts stream) ! i =
        \<lparr>fr_ring_id = ''RING_'' @ pad3 (dec (i + 1)),
         member_accounts = cycles (detected fl rows ts stream) ! i,
         pattern_type = ''cycle'',
         risk_score = min 100 (\<lfloor>mean_score (scores (scored fl rows ts stream))
                                  (cycles (detected fl rows ts stream) ! i)\<rfloor> + 10)\<rparr>"
  using assms
  by (simp add: fraud_rings_analyze fraud_ring_list_def enumerate1_nth mk_ring_def
      ring_id_of_def risk_score_floor length_enumerate1)

theorem C2_witness:
  "fraud_rings (analyze exact_ops rows_tri False [[''A'', ''B'', ''C'']]) ! 0 =
     \<lparr>fr_ring_id = ''RING_001'', member_accounts = [''A'', ''B'', ''C''],
      pattern_type = ''cycle'', risk_score = 91\<rparr>"
proof -
  have h: "0 < length (cycles (detected exact_ops rows_tri False [[''A'', ''B'', ''C'']]))"
    by code_simp
  have c: "cycles (detected exact_ops rows_tri False [[''A'', ''B'', ''C'']]) ! 0 = [''A'', ''B'', ''C'']"
    by code_simp
  have m: "\<lfloor>mean_score (scores (scored exact_ops rows_tri False [[''A'', ''B'', ''C'']])) [''A'', ''B'', ''C'']\<rfloor> = 81"
    by code_simp
  have p: "pad3 (dec (0 + 1)) = ''001''" by code_simp
  from C2_fraud_rings [OF h] show ?thesis unfolding c m p by simp
qed

text \<open>
  On the triangle the scores are 100, 80 and 65, with mean 81.67: the ring's risk score
  is 91, and rounding the mean to the nearest integer would give 92.
\<close>

theorem C2_counterexample:
  "simple_cycle (build_graph rows_tri) [''A'', ''B'', ''C''] \<and>
   cycles (detected exact_ops rows_tri False [[''A'', ''B'', ''C'']]) = [[''A'', ''B'', ''C'']] \<and>
   scores (scored exact_ops rows_tri False [[''A'', ''B'', ''C'']]) = [(''A'', 100), (''B'', 80), (''C'', 65)] \<and>
   risk_score (fraud_rings (analyze exact_ops rows_tri False [[''A'', ''B'', ''C'']]) ! 0) = 91 \<and>
   spec_risk_score (scores (scored exact_ops rows_tri False [[''A'', ''B'', ''C'']])) [''A'', ''B'', ''C''] = 92"
  by code_simp

subsection \<open>Scenarios\<close>

text \<open>
  C10. There is an input on which one account is both a smurf hub and a smurf source:
  \<open>H1\<close> receives from five senders and sends once into the hub \<open>H2\<close>. It is in no
  cycle and in no other detector set that scores, the scorer adds \<open>SMURF_SCORE\<close> twice,
  its score is 80 and its pattern list holds both smurfing labels.
\<close>

theorem C10_hub_and_source:
  "''H1'' \<in> smurf_hubs (detected exact_ops rows_hubs False []) \<and>
   ''H1'' \<in> smurf_sources (detected exact_ops rows_hubs False []) \<and>
   fst (cycle_part (detected exact_ops rows_hubs False []) ''H1'') = 0 \<and>
   get (scores (scored exact_ops rows_hubs False [])) ''H1'' 0 = SMURF_SCORE + SMURF_SCORE \<and>
   get (scores (scored exact_ops rows_hubs False [])) ''H1'' 0 = 80 \<and>
   get (patterns (scored exact_ops rows_hubs False [])) ''H1'' [] = [''smurfing_hub'', ''smurfing_source'']"
  by code_simp



subsection \<open>The sliding window\<close>

text \<open>
  On a sorted list and with a window that is not negative, the scan never reads out of
  range, and it breaks exactly when some right end passes the test with its left end.
\<close>

lemma is_left_unique: "is_left ts w l r \<Longrightarrow> is_left ts w l' r \<Longrightarrow> l = l'"
  unfolding is_left_def by (metis linorder_neqE_nat not_less)

lemma advance_left_spec:
  assumes "0 \<le> w" "right < length ts" "left \<le> right" "\<forall>k<left. ts ! right - ts ! k > w"
  shows "\<exists>l. advance_left ts w right left = Some l \<and> is_left ts w l right"
  using assms
proof (induction "right - left" arbitrary: left)
  case 0
  then have "left = right" by simp
  with 0 show ?case
    by (subst advance_left.simps) (simp add: is_left_def)
next
  case (Suc d)
  show ?case
  proof (cases "ts ! right - ts ! left > w")
    case True
    have "\<forall>k<left + 1. ts ! right - ts ! k > w"
      using Suc.prems(4) True by (auto simp: less_Suc_eq)
    with Suc have "\<exists>l. advance_left ts w right (left + 1) = Some l \<and> is_left ts w l right"
      by (intro Suc.hyps(1)) auto
    moreover have "advance_left ts w right left = advance_left ts w right (left + 1)"
      using True Suc.prems Suc.hyps(2) by (subst advance_left.simps) auto
    ultimately show ?thesis by simp
  next
    case False
    then have "advance_left ts w right left = Some left"
      using Suc.prems Suc.hyps(2) by (subst advance_left.simps) auto
    with False Suc.prems show ?thesis by (auto simp: is_left_def)
  qed
qed

lemma window_scan_spec:
  assumes "sorted ts" "0 \<le> w" "left \<le> right"
    "right < length ts \<longrightarrow> (\<forall>k<left. ts ! right - ts ! k > w)"
  shows "window_scan ts w hit left right =
           Some (\<exists>r l. right \<le> r \<and> r < length ts \<and> is_left ts w l r \<and> hit l r)"
  using assms
proof (induction "length ts - right" arbitrary: left right)
  case 0
  then have "length ts \<le> right" by simp
  then show ?case by (subst window_scan.simps) auto
next
  case (Suc d)
  then have r: "right < length ts" by simp
  with Suc.prems obtain l where l: "advance_left ts w right left = Some l" "is_left ts w l right"
    using advance_left_spec [of w right ts left] by blast
  show ?case
  proof (cases "hit l right")
    case True
    with l r have "window_scan ts w hit left right = Some True"
      by (subst window_scan.simps) simp
    moreover have "\<exists>r l. right \<le> r \<and> r < length ts \<and> is_left ts w l r \<and> hit l r"
      using True l(2) r by blast
    ultimately show ?thesis by simp
  next
    case False
    with l r have eq: "window_scan ts w hit left right = window_scan ts w hit l (right + 1)"
      by (subst window_scan.simps) simp
    have le: "l \<le> right + 1" using l(2) by (simp add: is_left_def)
    have inv: "right + 1 < length ts \<longrightarrow> (\<forall>k<l. ts ! (right + 1) - ts ! k > w)"
    proof (intro impI allI)
      fix k assume a: "right + 1 < length ts" "k < l"
      then have "ts ! right \<le> ts ! (right + 1)"
        using Suc.prems(1) by (intro sorted_nth_mono) simp_all
      moreover have "ts ! right - ts ! k > w" using l(2) a(2) by (simp add: is_left_def)
      ultimately show "ts ! (right + 1) - ts ! k > w" by linarith
    qed
    have "d = length ts - (right + 1)" using Suc.hyps(2) by simp
    from Suc.hyps(1) [OF this Suc.prems(1,2) le inv]
    have "window_scan ts w hit l (right + 1) =
            Some (\<exists>r l. right + 1 \<le> r \<and> r < length ts \<and> is_left ts w l r \<and> hit l r)" .
    moreover have "(\<exists>r l. right + 1 \<le> r \<and> r < length ts \<and> is_left ts w l r \<and> hit l r)
         \<longleftrightarrow> (\<exists>r l. right \<le> r \<and> r < length ts \<and> is_left ts w l r \<and> hit l r)"
    proof
      assume "\<exists>r l. right + 1 \<le> r \<and> r < length ts \<and> is_left ts w l r \<and> hit l r"
      then obtain r' l' where "right + 1 \<le> r'" "r' < length ts" "is_left ts w l' r'" "hit l' r'"
        by blast
      moreover from this have "right \<le> r'" by simp
      ultimately show "\<exists>r l. right \<le> r \<and> r < length ts \<and> is_left ts w l r \<and> hit l r"
        by blast
    next
      assume "\<exists>r l. right \<le> r \<and> r < length ts \<and> is_left ts w l r \<and> hit l r"
      then obtain r' l' where h: "right \<le> r'" "r' < length ts" "is_left ts w l' r'" "hit l' r'"
        by blast
      have "r' \<noteq> right"
      proof
        assume "r' = right"
        with h(3) l(2) have "l' = l" using is_left_unique by blast
        with h(4) \<open>r' = right\<close> False show False by simp
      qed
      with h(1) have "right + 1 \<le> r'" by simp
      with h show "\<exists>r l. right + 1 \<le> r \<and> r < length ts \<and> is_left ts w l r \<and> hit l r"
        by blast
    qed
    ultimately show ?thesis using eq by simp
  qed
qed

lemma window_scan_start:
  assumes "sorted ts" "0 \<le> w"
  shows "window_scan ts w hit 0 0 = Some (\<exists>r l. r < length ts \<and> is_left ts w l r \<and> hit l r)"
  using window_scan_spec [OF assms, of 0 0 hit] by simp


lemma is_left_exists:
  assumes "0 \<le> w" "r < length ts"
  shows "\<exists>l. is_left ts w l r"
  using advance_left_spec [OF assms, of 0] by auto

lemma window_nonneg: "0 \<le> timedelta_hours TEMPORAL_WINDOW_H" "0 \<le> timedelta_hours SMURF_WINDOW_H"
  by (simp_all add: timedelta_hours_def TEMPORAL_WINDOW_H_def SMURF_WINDOW_H_def)

lemma dense_window_iff:
  "dense_window T \<longleftrightarrow> (\<exists>i. i + 9 < length T \<and> T ! (i + 9) - T ! i \<le> timedelta_hours 72)"
  unfolding dense_window_def list_ex_iff by (auto simp: less_diff_conv)

lemma temporal_flag_iff: "temporal_flag xs \<longleftrightarrow> dense_window (sort xs)"
proof -
  let ?ts = "sort xs" and ?w = "timedelta_hours TEMPORAL_WINDOW_H"
  have w: "?w = timedelta_hours 72" by (simp add: TEMPORAL_WINDOW_H_def)
  have scan: "window_scan ?ts ?w temporal_hit 0 0 =
      Some (\<exists>r l. r < length ?ts \<and> is_left ?ts ?w l r \<and> temporal_hit l r)"
    by (rule window_scan_start) (simp_all add: window_nonneg)
  show ?thesis
  proof
    assume "temporal_flag xs"
    then obtain r l where h: "r < length ?ts" "is_left ?ts ?w l r" "temporal_hit l r"
      unfolding temporal_flag_def scan by auto
    from h(3) have lr: "l + 9 \<le> r" by (simp add: temporal_hit_def TEMPORAL_TX_MIN_def)
    then have "?ts ! (l + 9) \<le> ?ts ! r"
      using h(1) by (intro sorted_nth_mono) simp_all
    moreover have "?ts ! r - ?ts ! l \<le> ?w" using h(2) by (simp add: is_left_def)
    ultimately have "?ts ! (l + 9) - ?ts ! l \<le> timedelta_hours 72" unfolding w by linarith
    moreover have "l + 9 < length ?ts" using lr h(1) by simp
    ultimately show "dense_window ?ts" unfolding dense_window_iff by blast
  next
    assume "dense_window ?ts"
    then obtain i where i: "i + 9 < length ?ts" "?ts ! (i + 9) - ?ts ! i \<le> ?w"
      unfolding dense_window_iff w by blast
    obtain l where l: "is_left ?ts ?w l (i + 9)"
      using is_left_exists [OF window_nonneg(1) i(1)] by blast
    have "l \<le> i"
    proof (rule ccontr)
      assume "\<not> l \<le> i"
      then have "i < l" by simp
      with l have "?ts ! (i + 9) - ?ts ! i > ?w" by (simp add: is_left_def)
      with i(2) show False by simp
    qed
    then have "temporal_hit l (i + 9)" by (simp add: temporal_hit_def TEMPORAL_TX_MIN_def)
    with i(1) l have "\<exists>r l. r < length ?ts \<and> is_left ?ts ?w l r \<and> temporal_hit l r" by blast
    moreover have "\<not> length xs < TEMPORAL_TX_MIN" using i(1) by (simp add: TEMPORAL_TX_MIN_def)
    ultimately show "temporal_flag xs" unfolding temporal_flag_def scan by simp
  qed
qed

lemma mset_account_ts:
  assumes "\<forall>r \<in> set rows. sender_id r \<noteq> receiver_id r"
  shows "mset (account_ts rows acc) = mset (map timestamp (txns_of rows acc))"
  using assms by (induction rows) (auto simp: account_ts_def txns_of_def)

lemma sort_account_ts:
  assumes "\<forall>r \<in> set rows. sender_id r \<noteq> receiver_id r"
  shows "sort (account_ts rows acc) = sort (map timestamp (txns_of rows acc))"
proof (rule properties_for_sort)
  show "mset (sort (map timestamp (txns_of rows acc))) = mset (account_ts rows acc)"
    using mset_account_ts [OF assms] by simp
  show "sorted (sort (map timestamp (txns_of rows acc)))" by simp
qed

lemma remove_self_loops_set:
  "\<forall>r \<in> set (remove_self_loops rows). sender_id r \<noteq> receiver_id r"
  by (simp add: remove_self_loops_def)

lemma temporal_detected:
  "temporal (detected fl rows ts stream) = (if ts then detect_temporal rows else {})"
  by (simp add: detected_def detect_all_def precompute_def)

text \<open>
  C6. With \<open>has_ts\<close> true and no row from an account to itself (the parser
  drops them), an account is flagged by the temporal detector if and only if, in the sorted
  timestamps of all rows where it is sender or receiver, ten consecutive timestamps span at
  most 72 hours: the window is closed on both ends.
\<close>

theorem C6_temporal_closed_window:
  assumes "\<forall>r \<in> set rows. sender_id r \<noteq> receiver_id r"
  shows "acc \<in> temporal (detected fl rows True stream) \<longleftrightarrow> dense_window (timeline rows acc)"
proof -
  have "acc \<in> temporal (detected fl rows True stream)
      \<longleftrightarrow> acc \<in> accounts_of rows \<and> dense_window (timeline rows acc)"
    by (simp add: temporal_detected detect_temporal_def temporal_flag_iff
        sort_account_ts [OF assms] timeline_def)
  moreover have "acc \<in> accounts_of rows" if "dense_window (timeline rows acc)"
  proof -
    from that have "txns_of rows acc \<noteq> []"
      unfolding dense_window_iff timeline_def by auto
    then obtain r where "r \<in> set (txns_of rows acc)" by (meson last_in_set)
    then show ?thesis by (auto simp: txns_of_def accounts_of_def)
  qed
  ultimately show ?thesis by blast
qed


text \<open>
  Ten transactions, eight hours apart: the first and the tenth are exactly 72 hours
  apart. The account is flagged, though no ten timestamps span less than 72 hours.
\<close>

theorem C6_counterexample:
  "''A'' \<in> temporal (detected exact_ops rows_burst True []) \<and>
   timeline rows_burst ''A'' ! 9 - timeline rows_burst ''A'' ! 0 = timedelta_hours 72 \<and>
   \<not> dense_window_open (timeline rows_burst ''A'')"
  by code_simp

theorem C6_witness:
  "list_all (\<lambda>r. sender_id r \<noteq> receiver_id r) rows_burst \<and>
   ''A'' \<in> temporal (detected exact_ops rows_burst True []) \<and> dense_window (timeline rows_burst ''A'')"
proof -
  have h: "\<forall>r \<in> set rows_burst. sender_id r \<noteq> receiver_id r"
    by (simp add: rows_burst_def tx_def)
  have "dense_window (timeline rows_burst ''A'')" by code_simp
  with C6_temporal_closed_window [OF h, of "''A''" exact_ops "[]"] h show ?thesis
    unfolding list_all_iff by blast
qed

subsection \<open>Smurf hubs\<close>

lemma slice_mem:
  assumes "l \<le> k" "k \<le> r" "r < length xs"
  shows "xs ! k \<in> set (take (r + 1 - l) (drop l xs))"
proof -
  have "k - l < length (take (r + 1 - l) (drop l xs))" using assms by simp
  moreover have "take (r + 1 - l) (drop l xs) ! (k - l) = xs ! k" using assms by simp
  ultimately show ?thesis by (metis nth_mem)
qed

lemma smurf_window_sufficient:
  assumes srt: "sorted (map timestamp inb)"
    and many: "card (window_senders inb t0) \<ge> 5"
  shows "smurf_window inb"
proof -
  let ?ts = "map timestamp inb" and ?w = "timedelta_hours SMURF_WINDOW_H"
  let ?R = "{r \<in> set inb. t0 \<le> timestamp r \<and> timestamp r \<le> t0 + timedelta_hours 24}"
  let ?S = "{k. k < length inb \<and> t0 \<le> ?ts ! k \<and> ?ts ! k \<le> t0 + timedelta_hours 24}"
  have w: "?w = timedelta_hours 24" by (simp add: SMURF_WINDOW_H_def)
  have finR: "finite (sender_id ` ?R)" by simp
  from many have "window_senders inb t0 \<noteq> {}" by auto
  then obtain r0 where r0: "r0 \<in> ?R" unfolding window_senders_def by blast
  then obtain k0 where "k0 < length inb" "inb ! k0 = r0" by (auto simp: in_set_conv_nth)
  with r0 have "k0 \<in> ?S" by simp
  then have ne: "?S \<noteq> {}" by blast
  have fin: "finite ?S" by simp
  define r where "r = Max ?S"
  have rS: "r \<in> ?S" unfolding r_def using fin ne by (rule Max_in)
  then have rlen: "r < length ?ts" by simp
  obtain l where l: "is_left ?ts ?w l r"
    using is_left_exists [OF window_nonneg(2) rlen] by blast
  have sub: "sender_id ` ?R \<subseteq> set (take (r + 1 - l) (drop l (map sender_id inb)))"
  proof
    fix s assume "s \<in> sender_id ` ?R"
    then obtain x where x: "x \<in> ?R" "s = sender_id x" by blast
    then obtain k where k: "k < length inb" "inb ! k = x" by (auto simp: in_set_conv_nth)
    with x have kS: "k \<in> ?S" by simp
    then have kr: "k \<le> r" unfolding r_def using fin by (intro Max_ge)
    from kS rS have "t0 \<le> ?ts ! k" "?ts ! r \<le> t0 + timedelta_hours 24" by blast+
    then have "?ts ! r - ?ts ! k \<le> ?w" unfolding w by linarith
    then have "\<not> k < l" using l unfolding is_left_def by (metis not_less)
    then have "l \<le> k" by simp
    from slice_mem [OF this kr, of "map sender_id inb"] rlen
    have "map sender_id inb ! k \<in> set (take (r + 1 - l) (drop l (map sender_id inb)))" by simp
    with k x show "s \<in> set (take (r + 1 - l) (drop l (map sender_id inb)))" by simp
  qed
  have "card (sender_id ` ?R) \<le> card (set (take (r + 1 - l) (drop l (map sender_id inb))))"
    by (rule card_mono [OF _ sub]) simp
  with many have hit: "smurf_hit (map sender_id inb) l r"
    by (simp add: smurf_hit_def SMURF_MIN_SOURCES_def window_senders_def)
  have "card (sender_id ` ?R) \<le> card ?R" by (rule card_image_le) simp
  also have "card ?R \<le> card (set inb)" by (rule card_mono) auto
  also have "\<dots> \<le> length inb" by (rule card_length)
  finally have len: "\<not> length inb < SMURF_MIN_SOURCES"
    using many by (simp add: SMURF_MIN_SOURCES_def window_senders_def)
  have "window_scan ?ts ?w (smurf_hit (map sender_id inb)) 0 0 =
      Some (\<exists>r l. r < length ?ts \<and> is_left ?ts ?w l r \<and> smurf_hit (map sender_id inb) l r)"
    by (rule window_scan_start [OF srt window_nonneg(2)])
  also have "\<dots> = Some True" using rlen l hit by blast
  finally show ?thesis using len by (simp add: smurf_window_def)
qed

lemma has_ts_precompute: "has_ts (precompute fl rows ts) = ts"
  by (simp add: precompute_def)

lemma df_precompute: "df (precompute fl rows ts) = rows"
  by (simp add: precompute_def)

lemma window_senders_sort:
  "window_senders (sort_key timestamp xs) t0 = window_senders xs t0"
  by (simp add: window_senders_def)

lemma window_senders_subset: "window_senders (inbound_rows rows n) t0 \<subseteq> senders_to rows n"
  by (auto simp: window_senders_def senders_to_def)

text \<open>
  C9. The out-degree gate counts distinct successors. For every input and every node
  all of whose outgoing transactions, however many, go to one receiver: if the node has at
  least 5 distinct senders (among the inbound rows of some span of 24 hours when
  \<open>has_ts\<close> is true, overall when it is false), it is a smurf hub.
\<close>

theorem C9_smurf_out_degree_distinct:
  assumes single: "\<forall>r \<in> set rows. sender_id r = n \<longrightarrow> receiver_id r = v"
    and many: "if ts then \<exists>t0. card (window_senders (inbound_rows rows n) t0) \<ge> 5
               else card (senders_to rows n) \<ge> 5"
  shows "n \<in> smurf_hubs (detected fl rows ts stream)"
proof -
  have fin: "finite (senders_to rows n)" by (simp add: senders_to_def)
  have ind: "card (senders_to rows n) \<ge> 5"
  proof (cases ts)
    case True
    with many obtain t0 where "card (window_senders (inbound_rows rows n) t0) \<ge> 5" by auto
    moreover have "card (window_senders (inbound_rows rows n) t0) \<le> card (senders_to rows n)"
      by (rule card_mono [OF fin window_senders_subset])
    ultimately show ?thesis by simp
  next
    case False
    with many show ?thesis by simp
  qed
  then have "senders_to rows n \<noteq> {}" by auto
  then have node: "n \<in> accounts_of rows" by (rule senders_to_accounts)
  have "receivers_from rows n \<subseteq> {v}" using single by (auto simp: receivers_from_def)
  then have "card (receivers_from rows n) \<le> card {v}" by (intro card_mono) simp_all
  then have outd: "card (receivers_from rows n) \<le> 1" by simp
  have "is_smurf_hub (precompute fl rows ts) n"
  proof (cases ts)
    case False
    with ind outd show ?thesis
      by (simp add: is_smurf_hub_def has_ts_precompute df_precompute get_in_deg get_out_deg
          SMURF_MIN_SOURCES_def)
  next
    case True
    with many obtain t0 where "card (window_senders (inbound_rows rows n) t0) \<ge> 5" by auto
    then have "card (window_senders (sort_key timestamp (inbound_rows rows n)) t0) \<ge> 5"
      by (simp only: window_senders_sort)
    moreover have "sorted (map timestamp (sort_key timestamp (inbound_rows rows n)))"
      by (rule sorted_sort_key)
    ultimately have "smurf_window (sort_key timestamp (inbound_rows rows n))"
      by (rule smurf_window_sufficient [rotated])
    with True ind outd show ?thesis
      by (simp add: is_smurf_hub_def has_ts_precompute df_precompute get_in_deg get_out_deg
          SMURF_MIN_SOURCES_def)
  qed
  with node show ?thesis
    by (simp add: smurf_hubs_detected detect_smurf_hubs_def graph_precompute build_graph_nodes)
qed


theorem C9_witness:
  "length (filter (\<lambda>r. sender_id r = ''H'') rows_sink) = 3 \<and>
   out_degree (build_graph rows_sink) ''H'' = 1 \<and>
   ''H'' \<in> smurf_hubs (detected exact_ops rows_sink True [])"
proof -
  have h1: "\<forall>r \<in> set rows_sink. sender_id r = ''H'' \<longrightarrow> receiver_id r = ''Z''"
    by (simp add: rows_sink_def tx_def)
  have "card (window_senders (inbound_rows rows_sink ''H'') 0) \<ge> 5" by code_simp
  then have h2: "if True then \<exists>t0. card (window_senders (inbound_rows rows_sink ''H'') t0) \<ge> 5
                 else card (senders_to rows_sink ''H'') \<ge> 5"
    by auto
  have "length (filter (\<lambda>r. sender_id r = ''H'') rows_sink) = 3" by code_simp
  moreover have "out_degree (build_graph rows_sink) ''H'' = 1" by code_simp
  ultimately show ?thesis
    using C9_smurf_out_degree_distinct [OF h1 h2, of exact_ops "[]"] by simp
qed

subsection \<open>The visualisation graph\<close>

lemma finite_priority: "finite (priority sc fr)"
  by (simp add: priority_def ring_members_def)

lemma set_py_list: "finite S \<Longrightarrow> set (py_list S) = S"
  by (simp add: py_list_def)

lemma length_py_list: "length (py_list S) = card S"
  by (simp add: py_list_def)

lemma finite_display: "finite prio \<Longrightarrow> finite (display g prio)"
  by (simp add: display_def)

lemma card_display:
  assumes "finite prio"
  shows "card (display g prio) \<le> max MAX_VIZ_NODES (card prio)"
proof (cases "card (set (g_nodes g)) > MAX_VIZ_NODES")
  case True
  let ?k = "nat (max 0 (int MAX_VIZ_NODES - int (card prio)))"
  let ?rest = "py_list (set (g_nodes g) - prio)"
  have "card (display g prio) \<le> card prio + card (set (take ?k ?rest))"
    using True by (simp add: display_def card_Un_le)
  also have "card (set (take ?k ?rest)) \<le> length (take ?k ?rest)" by (rule card_length)
  also have "length (take ?k ?rest) \<le> ?k" by simp
  also have "card prio + ?k = max MAX_VIZ_NODES (card prio)" by simp
  finally show ?thesis by simp
next
  case False
  then show ?thesis by (simp add: display_def)
qed

lemma priority_subset_display:
  "card (set (g_nodes g)) > MAX_VIZ_NODES \<Longrightarrow> prio \<subseteq> display g prio"
  by (simp add: display_def)

lemma graph_data_analyze:
  "graph_data (analyze fl rows ts stream) =
     \<lparr>gd_nodes = map (mk_node (scored fl rows ts stream)
                        (ring_members (fraud_rings (analyze fl rows ts stream))))
                   (py_list (display (build_graph rows) (shown_priority fl rows ts stream))),
      gd_edges = map mk_edge
        (filter (\<lambda>e. fst (fst e) \<in> display (build_graph rows) (shown_priority fl rows ts stream) \<and>
                      snd (fst e) \<in> display (build_graph rows) (shown_priority fl rows ts stream))
           (edges_view (build_graph rows)))\<rparr>"
  by (simp add: analyze_def build_result_def Let_def shown_priority_def)

lemma node_ids:
  "gn_id ` set (gd_nodes (graph_data (analyze fl rows ts stream))) =
     display (build_graph rows) (shown_priority fl rows ts stream)"
proof -
  have "finite (display (build_graph rows) (shown_priority fl rows ts stream))"
    by (simp add: finite_display finite_priority shown_priority_def)
  then show ?thesis
    by (simp add: graph_data_analyze image_image mk_node_def set_py_list)
qed

lemma length_nodes:
  "length (gd_nodes (graph_data (analyze fl rows ts stream))) =
     card (display (build_graph rows) (shown_priority fl rows ts stream))"
  by (simp add: graph_data_analyze length_py_list)

lemma record_cycles_subset:
  "set (record_cycles stream seen acc) \<subseteq> set stream \<union> set acc"
  by (induction stream seen acc rule: record_cycles.induct) auto

lemma detect_cycles_subset: "set (detect_cycles stream) \<subseteq> set stream"
  using record_cycles_subset [of stream "[]" "[]"] by (simp add: detect_cycles_def)

lemma ring_members_list: "ring_members (fraud_ring_list sc cs) = cycle_members cs"
proof -
  have "member_accounts ` set (fraud_ring_list sc cs) = set (map snd (enumerate1 cs))"
    by (simp add: fraud_ring_list_def mk_ring_def image_image)
  also have "map snd (enumerate1 cs) = cs"
    by (simp add: enumerate1_def del: upt_Suc)
  finally show ?thesis by (simp add: ring_members_def cycle_members_def)
qed

lemma shown_priority_nodes:
  assumes "list_all (\<lambda>c. set c \<subseteq> set (g_nodes (build_graph rows))) stream"
  shows "shown_priority fl rows ts stream \<subseteq> set (g_nodes (build_graph rows))"
proof -
  have "cycle_members (detect_cycles stream) \<subseteq> set (g_nodes (build_graph rows))"
    using assms detect_cycles_subset [of stream]
    by (auto simp: cycle_members_def list_all_iff)
  moreover have "fst ` set (filter (\<lambda>nsc. snd nsc \<ge> SUSPICIOUS_THRESHOLD)
      (scores (scored fl rows ts stream))) \<subseteq> set (g_nodes (build_graph rows))"
    by (auto simp: scored_def score_def)
  ultimately show ?thesis
    by (simp add: shown_priority_def priority_def fraud_rings_analyze ring_members_list
        cycles_detected)
qed

lemma display_large_priority:
  assumes "finite prio" "prio \<subseteq> set (g_nodes g)" "card prio > MAX_VIZ_NODES"
  shows "display g prio = prio"
proof -
  have "card prio \<le> card (set (g_nodes g))" using assms(2) by (intro card_mono) simp_all
  with assms(3) have "card (set (g_nodes g)) > MAX_VIZ_NODES" by simp
  moreover have "nat (max 0 (int MAX_VIZ_NODES - int (card prio))) = 0" using assms(3) by simp
  ultimately show ?thesis by (simp add: display_def)
qed

text \<open>
  C1. For every input, the number of nodes of \<open>graph_data\<close> is at most the larger of
  \<open>MAX_VIZ_NODES = 2000\<close> and the size of the priority set (accounts with score at least
  40, and all ring members), so at most 2000 when the priority set has at most 2000
  elements. When the priority set has more than 2000 elements, and the cycles the graph
  library yields consist of nodes of the graph, the nodes of \<open>graph_data\<close> are exactly
  the priority set. Every edge of \<open>graph_data\<close> has its source and its target among the
  ids of the nodes.
\<close>

theorem C1_display_bound:
  "length (gd_nodes (graph_data (analyze fl rows ts stream)))
     \<le> max MAX_VIZ_NODES (card (shown_priority fl rows ts stream))
   \<and> (card (shown_priority fl rows ts stream) \<le> MAX_VIZ_NODES \<longrightarrow>
        length (gd_nodes (graph_data (analyze fl rows ts stream))) \<le> MAX_VIZ_NODES)
   \<and> (list_all (\<lambda>c. set c \<subseteq> set (g_nodes (build_graph rows))) stream \<and>
      card (shown_priority fl rows ts stream) > MAX_VIZ_NODES \<longrightarrow>
        gn_id ` set (gd_nodes (graph_data (analyze fl rows ts stream)))
          = shown_priority fl rows ts stream \<and>
        length (gd_nodes (graph_data (analyze fl rows ts stream)))
          = card (shown_priority fl rows ts stream))
   \<and> (\<forall>e \<in> set (gd_edges (graph_data (analyze fl rows ts stream))).
        source e \<in> gn_id ` set (gd_nodes (graph_data (analyze fl rows ts stream))) \<and>
        target e \<in> gn_id ` set (gd_nodes (graph_data (analyze fl rows ts stream))))"
proof -
  have fin: "finite (shown_priority fl rows ts stream)"
    by (simp add: shown_priority_def finite_priority)
  have b: "length (gd_nodes (graph_data (analyze fl rows ts stream)))
     \<le> max MAX_VIZ_NODES (card (shown_priority fl rows ts stream))"
    unfolding length_nodes by (rule card_display [OF fin])
  have e: "\<forall>e \<in> set (gd_edges (graph_data (analyze fl rows ts stream))).
        source e \<in> gn_id ` set (gd_nodes (graph_data (analyze fl rows ts stream))) \<and>
        target e \<in> gn_id ` set (gd_nodes (graph_data (analyze fl rows ts stream)))"
    unfolding node_ids by (auto simp: graph_data_analyze mk_edge_def)
  have a: "gn_id ` set (gd_nodes (graph_data (analyze fl rows ts stream)))
          = shown_priority fl rows ts stream \<and>
        length (gd_nodes (graph_data (analyze fl rows ts stream)))
          = card (shown_priority fl rows ts stream)"
    if "list_all (\<lambda>c. set c \<subseteq> set (g_nodes (build_graph rows))) stream"
      and "card (shown_priority fl rows ts stream) > MAX_VIZ_NODES"
  proof -
    have "display (build_graph rows) (shown_priority fl rows ts stream)
        = shown_priority fl rows ts stream"
      by (rule display_large_priority [OF fin shown_priority_nodes [OF that(1)] that(2)])
    then show ?thesis by (simp add: node_ids length_nodes)
  qed
  from b e a show ?thesis by auto
qed

text \<open>
  With 2001 senders into one account and no timestamps, the receiver is a smurf hub and
  every sender a smurf source with score 40: the priority set has more than 2000
  elements, all of them shown.
\<close>

lemma inj_sender_name: "inj sender_name"
proof (rule injI)
  fix i j assume "sender_name i = sender_name j"
  then have "length (sender_name i) = length (sender_name j)" by simp
  then show "i = j" by (simp add: sender_name_def)
qed

lemma sender_name_not_H: "sender_name i \<noteq> ''H''"
  by (cases i) (simp_all add: sender_name_def)

lemma crowd_senders: "sender_id ` set rows_crowd = sender_name ` {0..<2001}"
  by (simp add: rows_crowd_def tx_def image_image del: upt_Suc)

lemma crowd_row: "r \<in> set rows_crowd \<Longrightarrow> receiver_id r = ''H'' \<and> sender_id r \<in> sender_name ` {0..<2001}"
  by (auto simp: rows_crowd_def tx_def simp del: upt_Suc)

lemma crowd_senders_to_H: "senders_to rows_crowd ''H'' = sender_name ` {0..<2001}"
proof -
  have "inbound_rows rows_crowd ''H'' = rows_crowd"
    unfolding inbound_rows_def using crowd_row by (simp add: filter_id_conv)
  then show ?thesis by (simp add: senders_to_def crowd_senders)
qed

lemma card_crowd: "card (sender_name ` {0..<2001}) = 2001"
  using inj_sender_name by (simp add: card_image inj_on_def inj_def)

lemma crowd_receivers_from_H: "receivers_from rows_crowd ''H'' = {}"
proof -
  have "filter (\<lambda>r. sender_id r = ''H'') rows_crowd = []"
    unfolding filter_empty_conv using crowd_row sender_name_not_H by fastforce
  then show ?thesis by (simp add: receivers_from_def)
qed

lemma crowd_senders_to_sender: "senders_to rows_crowd (sender_name i) = {}"
proof -
  have "filter (\<lambda>r. receiver_id r = sender_name i) rows_crowd = []"
    unfolding filter_empty_conv using crowd_row sender_name_not_H by metis
  then show ?thesis by (simp add: senders_to_def inbound_rows_def)
qed

lemma crowd_accounts: "i < 2001 \<Longrightarrow> sender_name i \<in> accounts_of rows_crowd"
  unfolding accounts_of_def crowd_senders by simp

lemma crowd_H_account: "''H'' \<in> accounts_of rows_crowd"
  using senders_to_accounts [of rows_crowd "''H''"] crowd_senders_to_H by simp

lemma crowd_hub: "''H'' \<in> detect_smurf_hubs (precompute exact_ops rows_crowd False)"
  using crowd_H_account
  by (simp add: detect_smurf_hubs_def graph_precompute build_graph_nodes is_smurf_hub_def
      get_in_deg get_out_deg crowd_senders_to_H crowd_receivers_from_H
      card_crowd SMURF_MIN_SOURCES_def has_ts_precompute df_precompute)

lemma crowd_source:
  assumes "i < 2001"
  shows "sender_name i \<in> smurf_sources (detected exact_ops rows_crowd False [])"
proof -
  have "sender_name i \<in> senders_to rows_crowd ''H''"
    using assms by (simp add: crowd_senders_to_H)
  with crowd_hub show ?thesis
    by (auto simp: detected_def detect_all_def detect_smurf_sources_def df_precompute)
qed

lemma crowd_no_merchant: "sender_name i \<notin> merchants (detected exact_ops rows_crowd False [])"
  by (simp add: merchants_detected is_merchant_def get_in_deg crowd_senders_to_sender)

lemma source_score:
  assumes "n \<in> smurf_sources d" "n \<notin> merchants d"
  shows "fst (score_node d n) \<ge> SUSPICIOUS_THRESHOLD"
proof -
  have "fst (signals d n) \<ge> SMURF_SCORE" using assms(1) unfolding fst_signals by simp
  with assms(2) show ?thesis by (simp add: score_node_def score_consts)
qed

lemma scored_priority:
  assumes "n \<in> accounts_of rows"
    and "fst (score_node (detected fl rows ts stream) n) \<ge> SUSPICIOUS_THRESHOLD"
  shows "n \<in> shown_priority fl rows ts stream"
proof -
  have "(n, fst (score_node (detected fl rows ts stream) n)) \<in> set (scores (scored fl rows ts stream))"
    using assms(1) by (auto simp: scored_def score_def build_graph_nodes)
  with assms(2) have "(n, fst (score_node (detected fl rows ts stream) n))
      \<in> set (filter (\<lambda>nsc. snd nsc \<ge> SUSPICIOUS_THRESHOLD) (scores (scored fl rows ts stream)))"
    by simp
  then have "n \<in> fst ` set (filter (\<lambda>nsc. snd nsc \<ge> SUSPICIOUS_THRESHOLD)
      (scores (scored fl rows ts stream)))"
    by (metis fst_conv image_eqI)
  then show ?thesis by (simp add: shown_priority_def priority_def)
qed

lemma crowd_priority: "sender_name ` {0..<2001} \<subseteq> shown_priority exact_ops rows_crowd False []"
proof
  fix n assume "n \<in> sender_name ` {0..<2001}"
  then obtain i where i: "i < 2001" "n = sender_name i" by auto
  from source_score [OF crowd_source [OF i(1)] crowd_no_merchant]
  show "n \<in> shown_priority exact_ops rows_crowd False []"
    unfolding i(2) by (rule scored_priority [OF crowd_accounts [OF i(1)]])
qed

lemma crowd_nodes: "card (set (g_nodes (build_graph rows_crowd))) > MAX_VIZ_NODES"
proof -
  have "sender_name ` {0..<2001} \<subseteq> set (g_nodes (build_graph rows_crowd))"
    using crowd_accounts by (auto simp: build_graph_nodes)
  then have "card (sender_name ` {0..<2001}) \<le> card (set (g_nodes (build_graph rows_crowd)))"
    by (intro card_mono) simp_all
  then show ?thesis by (simp add: card_crowd MAX_VIZ_NODES_def)
qed

lemma crowd_priority_card: "card (shown_priority exact_ops rows_crowd False []) > MAX_VIZ_NODES"
proof -
  have fin: "finite (shown_priority exact_ops rows_crowd False [])"
    by (simp add: shown_priority_def finite_priority)
  have "card (sender_name ` {0..<2001}) \<le> card (shown_priority exact_ops rows_crowd False [])"
    by (rule card_mono [OF fin crowd_priority])
  then show ?thesis by (simp add: card_crowd MAX_VIZ_NODES_def)
qed

theorem C1_witness:
  "card (shown_priority exact_ops rows_tri False [[''A'', ''B'', ''C'']]) = 3 \<and>
   length (gd_nodes (graph_data (analyze exact_ops rows_tri False [[''A'', ''B'', ''C'']])))
     \<le> MAX_VIZ_NODES \<and>
   list_all (\<lambda>e.
       source e \<in> gn_id ` set (gd_nodes (graph_data
          (analyze exact_ops rows_tri False [[''A'', ''B'', ''C'']]))) \<and>
       target e \<in> gn_id ` set (gd_nodes (graph_data
          (analyze exact_ops rows_tri False [[''A'', ''B'', ''C'']]))))
     (gd_edges (graph_data (analyze exact_ops rows_tri False [[''A'', ''B'', ''C'']]))) \<and>
   card (shown_priority exact_ops rows_crowd False []) > MAX_VIZ_NODES \<and>
   gn_id ` set (gd_nodes (graph_data (analyze exact_ops rows_crowd False [])))
     = shown_priority exact_ops rows_crowd False [] \<and>
   length (gd_nodes (graph_data (analyze exact_ops rows_crowd False [])))
     = card (shown_priority exact_ops rows_crowd False [])"
proof -
  have c: "card (shown_priority exact_ops rows_tri False [[''A'', ''B'', ''C'']]) = 3"
    by code_simp
  then have s: "card (shown_priority exact_ops rows_tri False [[''A'', ''B'', ''C'']])
      \<le> MAX_VIZ_NODES"
    by (simp add: MAX_VIZ_NODES_def)
  have l: "list_all (\<lambda>c. set c \<subseteq> set (g_nodes (build_graph rows_crowd))) []" by simp
  from C1_display_bound [of exact_ops rows_tri False "[[''A'', ''B'', ''C'']]"] c s
  have tri: "length (gd_nodes (graph_data (analyze exact_ops rows_tri False [[''A'', ''B'', ''C'']])))
     \<le> MAX_VIZ_NODES \<and>
   list_all (\<lambda>e.
       source e \<in> gn_id ` set (gd_nodes (graph_data
          (analyze exact_ops rows_tri False [[''A'', ''B'', ''C'']]))) \<and>
       target e \<in> gn_id ` set (gd_nodes (graph_data
          (analyze exact_ops rows_tri False [[''A'', ''B'', ''C'']]))))
     (gd_edges (graph_data (analyze exact_ops rows_tri False [[''A'', ''B'', ''C'']])))"
    unfolding list_all_iff by blast
  from C1_display_bound [of exact_ops rows_crowd False "[]"] l crowd_priority_card
  have "gn_id ` set (gd_nodes (graph_data (analyze exact_ops rows_crowd False [])))
     = shown_priority exact_ops rows_crowd False [] \<and>
   length (gd_nodes (graph_data (analyze exact_ops rows_crowd False [])))
     = card (shown_priority exact_ops rows_crowd False [])"
    by blast
  with tri c crowd_priority_card show ?thesis by blast
qed

theorem C1_counterexample:
  "card (shown_priority exact_ops rows_crowd False []) > MAX_VIZ_NODES \<and>
   \<not> length (gd_nodes (graph_data (analyze exact_ops rows_crowd False []))) \<le> MAX_VIZ_NODES"
proof -
  have fin: "finite (shown_priority exact_ops rows_crowd False [])"
    by (simp add: shown_priority_def finite_priority)
  have "shown_priority exact_ops rows_crowd False []
      \<subseteq> display (build_graph rows_crowd) (shown_priority exact_ops rows_crowd False [])"
    by (rule priority_subset_display [OF crowd_nodes])
  then have "card (shown_priority exact_ops rows_crowd False [])
      \<le> card (display (build_graph rows_crowd) (shown_priority exact_ops rows_crowd False []))"
    by (intro card_mono finite_display fin)
  with crowd_priority_card show ?thesis unfolding length_nodes by simp
qed

end
